(* ===== verification/Prelude.thy ===== *)
theory Prelude
  imports Main "HOL-Library.Word"
begin

text \<open>
  What every component of the model shares: the exceptions the C++ code throws and catches,
  programs as state transformers that end in a value or in an exception, the rules that let a
  proof follow a program (equations, framing, weakest preconditions), and a few facts on lists.

  A C++ function that may throw and that changes the state of the process is a value of type
  \<open>('s, 'a) prog\<close>: from the state it starts in, to what it returns (\<open>Inr\<close>) or throws (\<open>Inl\<close>) and
  the state it leaves behind. Effects made before a throw stay, as they do in C++.
\<close>

section \<open>Exceptions\<close>

text \<open>
  The classes the code distinguishes in its \<open>catch\<close> clauses: \<open>json::exception\<close>,
  \<open>odb::exception\<close> with its subclass \<open>odb::connection_lost\<close>, and the other classes derived from
  \<open>std::exception\<close>. \<open>Undefined\<close> is undefined behaviour of the language (the process may do
  anything): no \<open>catch\<close> clause sees it.
\<close>

datatype exn =
    Runtime_error string
  | Logic_error string
  | Invalid_argument string
  | Out_of_range string
  | Filesystem_error string
  | Json_exception string
  | Connection_lost string
  | Odb_exception string
  | Other_exception string
  | Undefined string

fun what :: "exn \<Rightarrow> string" where
  "what (Runtime_error m) = m"
| "what (Logic_error m) = m"
| "what (Invalid_argument m) = m"
| "what (Out_of_range m) = m"
| "what (Filesystem_error m) = m"
| "what (Json_exception m) = m"
| "what (Connection_lost m) = m"
| "what (Odb_exception m) = m"
| "what (Other_exception m) = m"
| "what (Undefined m) = m"

fun is_std :: "exn \<Rightarrow> bool" where
  "is_std (Undefined _) = False"
| "is_std _ = True"

fun is_json :: "exn \<Rightarrow> bool" where
  "is_json (Json_exception _) = True"
| "is_json _ = False"

fun is_connection_lost :: "exn \<Rightarrow> bool" where
  "is_connection_lost (Connection_lost _) = True"
| "is_connection_lost _ = False"

fun is_odb :: "exn \<Rightarrow> bool" where
  "is_odb (Connection_lost _) = True"
| "is_odb (Odb_exception _) = True"
| "is_odb _ = False"

lemma is_json_std [simp]: "is_json e \<Longrightarrow> is_std e"
  by (cases e) auto

lemma is_odb_std [simp]: "is_odb e \<Longrightarrow> is_std e"
  by (cases e) auto

lemma is_connection_lost_odb [simp]: "is_connection_lost e \<Longrightarrow> is_odb e"
  by (cases e) auto

section \<open>Programs\<close>

type_synonym ('s, 'a) prog = "'s \<Rightarrow> (exn + 'a) \<times> 's"

named_theorems prog_defs \<open>definitions of the program combinators\<close>
named_theorems keeps_rules \<open>which part of the state a program leaves alone\<close>
named_theorems wp_rules \<open>weakest preconditions of programs\<close>
named_theorems wp_intros \<open>sufficient conditions for a weakest precondition\<close>

definition ret :: "'a \<Rightarrow> ('s, 'a) prog" where
  "ret x = (\<lambda>s. (Inr x, s))"

definition throw :: "exn \<Rightarrow> ('s, 'a) prog" where
  "throw e = (\<lambda>s. (Inl e, s))"

text \<open>Sequencing: the second part runs on the result of the first, unless that one throws.\<close>

definition seq :: "('s, 'a) prog \<Rightarrow> ('a \<Rightarrow> ('s, 'b) prog) \<Rightarrow> ('s, 'b) prog" where
  "seq m f = (\<lambda>s. case m s of (Inl e, t) \<Rightarrow> (Inl e, t) | (Inr x, t) \<Rightarrow> f x t)"

text \<open>\<open>try m catch (C e) h\<close>, the class \<open>C\<close> as a predicate on exceptions.\<close>

definition catch :: "('s, 'a) prog \<Rightarrow> (exn \<Rightarrow> bool) \<Rightarrow> (exn \<Rightarrow> ('s, 'a) prog) \<Rightarrow> ('s, 'a) prog" where
  "catch m c h = (\<lambda>s. case m s of
      (Inl e, t) \<Rightarrow> (if c e then h e t else (Inl e, t))
    | (Inr x, t) \<Rightarrow> (Inr x, t))"

text \<open>
  \<open>try m catch (C1 e) h1 catch (C2 e) h2\<close>: the first clause that matches handles the exception,
  and what a handler throws is not seen by the clauses after it.
\<close>

definition catch2 :: "('s, 'a) prog \<Rightarrow> (exn \<Rightarrow> bool) \<Rightarrow> (exn \<Rightarrow> ('s, 'a) prog)
    \<Rightarrow> (exn \<Rightarrow> bool) \<Rightarrow> (exn \<Rightarrow> ('s, 'a) prog) \<Rightarrow> ('s, 'a) prog" where
  "catch2 m c1 h1 c2 h2 =
     catch m (\<lambda>e. c1 e \<or> c2 e) (\<lambda>e. if c1 e then h1 e else h2 e)"

definition get :: "('s \<Rightarrow> 'a) \<Rightarrow> ('s, 'a) prog" where
  "get f = (\<lambda>s. (Inr (f s), s))"

definition modify :: "('s \<Rightarrow> 's) \<Rightarrow> ('s, unit) prog" where
  "modify f = (\<lambda>s. (Inr (), f s))"

text \<open>A call of a function that has no effect on the state, and returns or throws.\<close>

definition call :: "exn + 'a \<Rightarrow> ('s, 'a) prog" where
  "call r = (\<lambda>s. (r, s))"

declare ret_def [prog_defs] throw_def [prog_defs] seq_def [prog_defs] catch_def [prog_defs]
  catch2_def [prog_defs] get_def [prog_defs] modify_def [prog_defs] call_def [prog_defs]

lemma seq_ret [simp]: "seq (ret x) f = f x"
  by (simp add: prog_defs)

lemma seq_throw [simp]: "seq (throw e) f = throw e"
  by (simp add: prog_defs)

lemma seq_assoc: "seq (seq m f) g = seq m (\<lambda>x. seq (f x) g)"
  by (rule ext) (auto simp: prog_defs split: sum.splits prod.splits)

lemma seq_call [simp]: "seq (call (Inr x)) f = f x" "seq (call (Inl e)) f = throw e"
  by (simp_all add: prog_defs)

lemma catch_throw [simp]: "catch (throw e) c h = (if c e then h e else throw e)"
  by (simp add: prog_defs fun_eq_iff)

lemma catch_ret [simp]: "catch (ret x) c h = ret x"
  by (simp add: prog_defs)

section \<open>Framing\<close>

text \<open>\<open>keeps f m\<close>: whether it returns or throws, \<open>m\<close> leaves the part \<open>f\<close> of the state as it was.\<close>

definition keeps :: "('s \<Rightarrow> 'b) \<Rightarrow> ('s, 'a) prog \<Rightarrow> bool" where
  "keeps f m \<longleftrightarrow> (\<forall>s. f (snd (m s)) = f s)"

lemma keepsD: "keeps f m \<Longrightarrow> f (snd (m s)) = f s"
  by (simp add: keeps_def)

lemma keeps_result: "keeps f m \<Longrightarrow> m s = (r, t) \<Longrightarrow> f t = f s"
  by (metis keepsD snd_conv)

lemma keeps_ret [keeps_rules]: "keeps f (ret x)"
  by (simp add: keeps_def prog_defs)

lemma keeps_throw [keeps_rules]: "keeps f (throw e)"
  by (simp add: keeps_def prog_defs)

lemma keeps_get [keeps_rules]: "keeps f (get g)"
  by (simp add: keeps_def prog_defs)

lemma keeps_call [keeps_rules]: "keeps f (call r)"
  by (simp add: keeps_def prog_defs)

lemma keeps_modify: "(\<And>s. f (g s) = f s) \<Longrightarrow> keeps f (modify g)"
  by (simp add: keeps_def prog_defs)

lemma keeps_seq [keeps_rules]:
  "keeps f m \<Longrightarrow> (\<And>x. keeps f (g x)) \<Longrightarrow> keeps f (seq m g)"
  unfolding keeps_def seq_def
  by (metis (mono_tags, lifting) old.sum.simps(5,6) prod.case_eq_if snd_conv sum.exhaust)

lemma keeps_catch [keeps_rules]:
  "keeps f m \<Longrightarrow> (\<And>e. keeps f (h e)) \<Longrightarrow> keeps f (catch m c h)"
  unfolding keeps_def catch_def
  by (auto split: prod.splits sum.splits) (metis snd_conv)+

lemma keeps_catch2 [keeps_rules]:
  "keeps f m \<Longrightarrow> (\<And>e. keeps f (h1 e)) \<Longrightarrow> (\<And>e. keeps f (h2 e)) \<Longrightarrow> keeps f (catch2 m c1 h1 c2 h2)"
  unfolding catch2_def by (rule keeps_catch) simp_all

lemma keeps_if [keeps_rules]:
  "(b \<Longrightarrow> keeps f m) \<Longrightarrow> (\<not> b \<Longrightarrow> keeps f n) \<Longrightarrow> keeps f (if b then m else n)"
  by simp

lemma keeps_option [keeps_rules]:
  "(x = None \<Longrightarrow> keeps f m) \<Longrightarrow> (\<And>y. x = Some y \<Longrightarrow> keeps f (n y)) \<Longrightarrow>
   keeps f (case x of None \<Rightarrow> m | Some y \<Rightarrow> n y)"
  by (cases x) auto

lemma keeps_prod [keeps_rules]:
  "(\<And>a b. x = (a, b) \<Longrightarrow> keeps f (m a b)) \<Longrightarrow> keeps f (case x of (a, b) \<Rightarrow> m a b)"
  by (cases x) auto

section \<open>Invariants\<close>

text \<open>\<open>preserves I m\<close>: whether it returns or throws, \<open>m\<close> keeps the invariant \<open>I\<close>.\<close>

definition preserves :: "('s \<Rightarrow> bool) \<Rightarrow> ('s, 'a) prog \<Rightarrow> bool" where
  "preserves I m \<longleftrightarrow> (\<forall>s. I s \<longrightarrow> I (snd (m s)))"

named_theorems preserves_rules \<open>programs that keep an invariant\<close>

lemma preservesD: "preserves I m \<Longrightarrow> I s \<Longrightarrow> I (snd (m s))"
  by (simp add: preserves_def)

lemma preserves_result: "preserves I m \<Longrightarrow> I s \<Longrightarrow> m s = (r, t) \<Longrightarrow> I t"
  by (metis preservesD snd_conv)

lemma preserves_pure [preserves_rules]:
  "preserves I (ret x)" "preserves I (throw e)" "preserves I (get f)" "preserves I (call r)"
  by (simp_all add: preserves_def prog_defs)

lemma preserves_modify: "(\<And>s. I s \<Longrightarrow> I (f s)) \<Longrightarrow> preserves I (modify f)"
  by (simp add: preserves_def prog_defs)

lemma preserves_seq [preserves_rules]:
  "preserves I m \<Longrightarrow> (\<And>x. preserves I (f x)) \<Longrightarrow> preserves I (seq m f)"
  unfolding preserves_def seq_def
  by (auto split: prod.splits sum.splits)

lemma preserves_catch [preserves_rules]:
  "preserves I m \<Longrightarrow> (\<And>e. preserves I (h e)) \<Longrightarrow> preserves I (catch m c h)"
  unfolding preserves_def catch_def
  by (auto split: prod.splits sum.splits)

lemma preserves_catch2 [preserves_rules]:
  "preserves I m \<Longrightarrow> (\<And>e. preserves I (h1 e)) \<Longrightarrow> (\<And>e. preserves I (h2 e)) \<Longrightarrow>
   preserves I (catch2 m c1 h1 c2 h2)"
  unfolding catch2_def by (rule preserves_catch) simp_all

lemma preserves_if [preserves_rules]:
  "(b \<Longrightarrow> preserves I m) \<Longrightarrow> (\<not> b \<Longrightarrow> preserves I n) \<Longrightarrow> preserves I (if b then m else n)"
  by simp

lemma preserves_option [preserves_rules]:
  "(x = None \<Longrightarrow> preserves I m) \<Longrightarrow> (\<And>y. x = Some y \<Longrightarrow> preserves I (n y)) \<Longrightarrow>
   preserves I (case x of None \<Rightarrow> m | Some y \<Rightarrow> n y)"
  by (cases x) auto

lemma preserves_list [preserves_rules]:
  "(x = [] \<Longrightarrow> preserves I m) \<Longrightarrow> (\<And>y ys. x = y # ys \<Longrightarrow> preserves I (n y ys)) \<Longrightarrow>
   preserves I (case x of [] \<Rightarrow> m | y # ys \<Rightarrow> n y ys)"
  by (cases x) auto

lemma preserves_prod [preserves_rules]:
  "(\<And>a b. x = (a, b) \<Longrightarrow> preserves I (m a b)) \<Longrightarrow> preserves I (case x of (a, b) \<Rightarrow> m a b)"
  by (cases x) auto

section \<open>Weakest preconditions\<close>

text \<open>
  \<open>wp m Q s\<close>: started in \<open>s\<close>, the program \<open>m\<close> ends in an outcome (a value or an exception) and a
  state for which \<open>Q\<close> holds. The rules push it through a program from its end to its start.
\<close>

definition wp :: "('s, 'a) prog \<Rightarrow> (exn + 'a \<Rightarrow> 's \<Rightarrow> bool) \<Rightarrow> 's \<Rightarrow> bool" where
  "wp m Q s \<longleftrightarrow> (case m s of (r, t) \<Rightarrow> Q r t)"

lemma wp_ret [wp_rules]: "wp (ret x) Q s = Q (Inr x) s"
  by (simp add: wp_def prog_defs)

lemma wp_throw [wp_rules]: "wp (throw e) Q s = Q (Inl e) s"
  by (simp add: wp_def prog_defs)

lemma wp_get [wp_rules]: "wp (get f) Q s = Q (Inr (f s)) s"
  by (simp add: wp_def prog_defs)

lemma wp_modify [wp_rules]: "wp (modify f) Q s = Q (Inr ()) (f s)"
  by (simp add: wp_def prog_defs)

lemma wp_call [wp_rules]: "wp (call r) Q s = Q r s"
  by (simp add: wp_def prog_defs)

lemma wp_seq [wp_rules]:
  "wp (seq m f) Q s = wp m (\<lambda>r t. case r of Inl e \<Rightarrow> Q (Inl e) t | Inr x \<Rightarrow> wp (f x) Q t) s"
  by (auto simp: wp_def seq_def split: prod.splits sum.splits)

lemma wp_catch [wp_rules]:
  "wp (catch m c h) Q s =
     wp m (\<lambda>r t. case r of Inl e \<Rightarrow> (if c e then wp (h e) Q t else Q (Inl e) t) | Inr x \<Rightarrow> Q (Inr x) t) s"
  by (auto simp: wp_def catch_def split: prod.splits sum.splits)

lemma wp_if [wp_rules]: "wp (if b then m else n) Q s = (if b then wp m Q s else wp n Q s)"
  by simp

lemma wp_conseq: "wp m Q s \<Longrightarrow> (\<And>r t. Q r t \<Longrightarrow> R r t) \<Longrightarrow> wp m R s"
  by (auto simp: wp_def split: prod.splits)

lemma wp_conj: "wp m Q s \<Longrightarrow> wp m R s \<Longrightarrow> wp m (\<lambda>r t. Q r t \<and> R r t) s"
  by (auto simp: wp_def split: prod.splits)

lemma wp_keeps: "keeps f m \<Longrightarrow> wp m (\<lambda>r t. f t = f s) s"
  by (auto simp: wp_def keeps_def split: prod.splits) (metis snd_conv)

lemma wpD: "wp m Q s \<Longrightarrow> m s = (r, t) \<Longrightarrow> Q r t"
  by (simp add: wp_def)

lemma wp_outcome: "wp m Q s \<longleftrightarrow> Q (fst (m s)) (snd (m s))"
  by (simp add: wp_def case_prod_beta)

lemma preserves_wp: "(\<And>s. I s \<Longrightarrow> wp m (\<lambda>r t. I t) s) \<Longrightarrow> preserves I m"
  unfolding preserves_def wp_def by (auto simp: case_prod_beta)

section \<open>Programs that do not throw\<close>

definition nothrow :: "('s, 'a) prog \<Rightarrow> bool" where
  "nothrow m \<longleftrightarrow> (\<forall>s. \<exists>x. fst (m s) = Inr x)"

lemma nothrowD: "nothrow m \<Longrightarrow> \<exists>x t. m s = (Inr x, t)"
  unfolding nothrow_def by (metis prod.collapse)

lemma nothrow_wp: "nothrow m \<Longrightarrow> wp m (\<lambda>r t. \<exists>x. r = Inr x) s"
  by (simp add: nothrow_def wp_outcome)

section \<open>Programs that throw only \<open>std::exception\<close>\<close>

text \<open>
  \<open>safe I m\<close>: from a state with the invariant \<open>I\<close>, the program ends with it, and if it throws then
  something a handler for \<open>std::exception\<close> catches.
\<close>

definition safe :: "('s \<Rightarrow> bool) \<Rightarrow> ('s, 'a) prog \<Rightarrow> bool" where
  "safe I m \<longleftrightarrow> (\<forall>s. I s \<longrightarrow> I (snd (m s)) \<and> (\<forall>e. fst (m s) = Inl e \<longrightarrow> is_std e))"

named_theorems safe_rules \<open>programs that throw only std::exception\<close>

lemma safe_result: "safe I m \<Longrightarrow> I s \<Longrightarrow> m s = (r, t) \<Longrightarrow> I t \<and> (\<forall>e. r = Inl e \<longrightarrow> is_std e)"
  unfolding safe_def by (metis fst_conv snd_conv)

lemma safe_preserves: "safe I m \<Longrightarrow> preserves I m"
  by (simp add: safe_def preserves_def)

lemma safe_ret [safe_rules]: "safe I (ret x)"
  by (simp add: safe_def prog_defs)

lemma safe_get [safe_rules]: "safe I (get f)"
  by (simp add: safe_def prog_defs)

lemma safe_throw [safe_rules]: "is_std e \<Longrightarrow> safe I (throw e)"
  by (simp add: safe_def prog_defs)

lemma safe_call [safe_rules]: "(\<And>e. r = Inl e \<Longrightarrow> is_std e) \<Longrightarrow> safe I (call r)"
  by (simp add: safe_def prog_defs)

lemma safe_modify [safe_rules]: "(\<And>s. I s \<Longrightarrow> I (f s)) \<Longrightarrow> safe I (modify f)"
  by (simp add: safe_def prog_defs)

lemma safe_seq [safe_rules]: "safe I m \<Longrightarrow> (\<And>x. safe I (f x)) \<Longrightarrow> safe I (seq m f)"
  unfolding safe_def seq_def
  by (auto split: prod.splits sum.splits)

lemma safe_catch [safe_rules]:
  "safe I m \<Longrightarrow> (\<And>e. safe I (h e)) \<Longrightarrow> safe I (catch m c h)"
  unfolding safe_def catch_def
  by (auto split: prod.splits sum.splits)

lemma safe_catch2 [safe_rules]:
  "safe I m \<Longrightarrow> (\<And>e. safe I (h1 e)) \<Longrightarrow> (\<And>e. safe I (h2 e)) \<Longrightarrow> safe I (catch2 m c1 h1 c2 h2)"
  unfolding catch2_def by (rule safe_catch) simp_all

lemma safe_if [safe_rules]: "(b \<Longrightarrow> safe I m) \<Longrightarrow> (\<not> b \<Longrightarrow> safe I n) \<Longrightarrow> safe I (if b then m else n)"
  by simp

lemma safe_option [safe_rules]:
  "(x = None \<Longrightarrow> safe I m) \<Longrightarrow> (\<And>y. x = Some y \<Longrightarrow> safe I (n y)) \<Longrightarrow>
   safe I (case x of None \<Rightarrow> m | Some y \<Rightarrow> n y)"
  by (cases x) auto

lemma safe_list [safe_rules]:
  "(x = [] \<Longrightarrow> safe I m) \<Longrightarrow> (\<And>y ys. x = y # ys \<Longrightarrow> safe I (n y ys)) \<Longrightarrow>
   safe I (case x of [] \<Rightarrow> m | y # ys \<Rightarrow> n y ys)"
  by (cases x) auto

lemma safe_prod [safe_rules]:
  "(\<And>a b. x = (a, b) \<Longrightarrow> safe I (m a b)) \<Longrightarrow> safe I (case x of (a, b) \<Rightarrow> m a b)"
  by (cases x) auto

text \<open>A catch-all whose handler cannot throw.\<close>

lemma safe_catch_all:
  assumes "safe I m" and "\<And>e. nothrow (h e)" and "\<And>e. is_std e \<Longrightarrow> c e" and "I s"
  shows "\<exists>x. fst (catch m c h s) = Inr x"
proof -
  obtain r t where m: "m s = (r, t)" by fastforce
  from safe_result [OF assms(1,4) m] assms(2,3) show ?thesis
    by (cases r) (auto simp: catch_def m nothrow_def)
qed

lemma nothrow_seq: "nothrow m \<Longrightarrow> (\<And>x. nothrow (f x)) \<Longrightarrow> nothrow (seq m f)"
  unfolding nothrow_def seq_def by (auto split: prod.splits sum.splits) (metis Inl_Inr_False fst_conv)

lemma nothrow_ret: "nothrow (ret x)"
  by (simp add: nothrow_def prog_defs)

section \<open>Lists and strings\<close>

definition starts_with :: "string \<Rightarrow> string \<Rightarrow> bool" where
  "starts_with p s \<longleftrightarrow> take (length p) s = p"

lemma starts_with_append [simp]: "starts_with p (p @ s)"
  by (simp add: starts_with_def)

lemma append_colon_inject:
  assumes "CHR '':'' \<notin> set a" and "CHR '':'' \<notin> set b"
  shows "a @ '':'' @ x = b @ '':'' @ y \<longleftrightarrow> a = b \<and> x = y"
  using assms
proof (induction a arbitrary: b)
  case Nil
  then show ?case by (cases b) auto
next
  case (Cons c a)
  then show ?case by (cases b) auto
qed

end
