(* ===== verification/Utility.thy ===== *)
theory Utility
  imports Prelude
begin

text \<open>
  \<^verbatim>\<open>src/Utility/Utility.h\<close>: \<open>toHexString\<close> and \<open>fromHexString\<close>, with the part of the C++ standard
  library they use (\<open>std::hex\<close>, \<open>setw\<close>, \<open>setfill\<close> and \<open>std::stoi\<close> in base 16). The locale
  \<open>hex_codec\<close> is what the password code relies on: decoding an encoding gives the bytes back.
\<close>

type_synonym u8 = "8 word"

section \<open>Formatting a byte: std::hex, setw, setfill\<close>

definition hex_digit :: "nat \<Rightarrow> char" where
  "hex_digit n = ''0123456789abcdef'' ! n"

fun hex_of_nat :: "nat \<Rightarrow> string" where
  "hex_of_nat n = (if n < 16 then [hex_digit n] else hex_of_nat (n div 16) @ [hex_digit (n mod 16)])"

declare hex_of_nat.simps [simp del]

text \<open>\<open>setw(w)\<close> with \<open>setfill(c)\<close>: pads on the left, never truncates.\<close>

definition setw :: "nat \<Rightarrow> char \<Rightarrow> string \<Rightarrow> string" where
  "setw w c s = replicate (w - length s) c @ s"

definition put_hex_byte :: "string \<Rightarrow> u8 \<Rightarrow> string" where
  "put_hex_byte out byte = out @ setw 2 (CHR ''0'') (hex_of_nat (unat byte))"

definition toHexString :: "u8 list \<Rightarrow> string" where
  "toHexString bytes = foldl put_hex_byte [] bytes"

section \<open>Parsing: std::stoi in base 16\<close>

definition is_space :: "char \<Rightarrow> bool" where
  "is_space c \<longleftrightarrow> of_char c = (32::nat) \<or> (9 \<le> (of_char c :: nat) \<and> (of_char c :: nat) \<le> 13)"

definition hex_value :: "char \<Rightarrow> nat option" where
  "hex_value c =
     (let n = of_char c :: nat in
      if 48 \<le> n \<and> n \<le> 57 then Some (n - 48)
      else if 97 \<le> n \<and> n \<le> 102 then Some (n - 87)
      else if 65 \<le> n \<and> n \<le> 70 then Some (n - 55)
      else None)"

definition is_hex :: "char \<Rightarrow> bool" where
  "is_hex c \<longleftrightarrow> hex_value c \<noteq> None"

fun hex_fold :: "nat \<Rightarrow> string \<Rightarrow> nat" where
  "hex_fold acc [] = acc"
| "hex_fold acc (c # cs) = hex_fold (16 * acc + (case hex_value c of Some d \<Rightarrow> d | None \<Rightarrow> 0)) cs"

text \<open>
  \<open>strtol(s, end, 16)\<close>: leading white space, an optional sign, an optional \<open>0x\<close> in front of a
  digit, then as many digits as there are. \<open>None\<close> when there is no digit (no conversion).
\<close>

definition skip_sign :: "string \<Rightarrow> bool \<times> string" where
  "skip_sign s = (case s of
      [] \<Rightarrow> (False, [])
    | c # cs \<Rightarrow> if c = CHR ''-'' then (True, cs) else if c = CHR ''+'' then (False, cs) else (False, s))"

definition skip_0x :: "string \<Rightarrow> string" where
  "skip_0x s = (case s of
      a # b # c # cs \<Rightarrow>
        if a = CHR ''0'' \<and> (b = CHR ''x'' \<or> b = CHR ''X'') \<and> is_hex c then c # cs else s
    | _ \<Rightarrow> s)"

definition strtol16 :: "string \<Rightarrow> int option" where
  "strtol16 s =
     (let (neg, s1) = skip_sign (dropWhile is_space s);
          ds = takeWhile is_hex (skip_0x s1);
          v = int (hex_fold 0 ds)
      in if ds = [] then None else Some (if neg then - v else v))"

text \<open>
  \<open>std::stoi\<close>: \<open>invalid_argument\<close> without a conversion, \<open>out_of_range\<close> for a value that is not an
  \<open>int\<close>. What follows the number is ignored (the \<open>pos\<close> argument is null).
\<close>

definition stoi16 :: "string \<Rightarrow> exn + int" where
  "stoi16 s = (case strtol16 s of
      None \<Rightarrow> Inl (Invalid_argument ''stoi'')
    | Some v \<Rightarrow> if - (2 ^ 31) \<le> v \<and> v < 2 ^ 31 then Inr v else Inl (Out_of_range ''stoi''))"

text \<open>
  The loop of \<open>fromHexString\<close>: \<open>hex\<close> is what is left from index \<open>i\<close> on, \<open>hex.substr(i, 2)\<close> is
  \<open>take 2 hex\<close> (one character at the end of a string of odd length), and the cast to \<open>uint8_t\<close>
  reduces modulo 256.
\<close>

function from_hex_loop :: "string \<Rightarrow> u8 list \<Rightarrow> exn + u8 list" where
  "from_hex_loop hex bytes =
     (if hex = [] then Inr bytes
      else case stoi16 (take 2 hex) of
             Inl e \<Rightarrow> Inl e
           | Inr v \<Rightarrow> from_hex_loop (drop 2 hex) (bytes @ [word_of_int v]))"
  by pat_completeness auto
termination
  by (relation "measure (\<lambda>(hex, bytes). length hex)") auto

declare from_hex_loop.simps [simp del]

definition fromHexString :: "string \<Rightarrow> exn + u8 list" where
  "fromHexString hex = from_hex_loop hex []"

section \<open>Lemmas\<close>

lemma hex_of_nat_byte: "n < 256 \<Longrightarrow> setw 2 (CHR ''0'') (hex_of_nat n) = [hex_digit (n div 16), hex_digit (n mod 16)]"
proof (cases "n < 16")
  case True
  then show ?thesis
    by (subst hex_of_nat.simps) (simp add: setw_def hex_digit_def)
next
  case False
  assume "n < 256"
  then have "n div 16 < 16" by simp
  with False show ?thesis
    by (subst hex_of_nat.simps, subst hex_of_nat.simps) (simp add: setw_def)
qed

lemma unat_byte [simp]: "unat (b :: u8) < 256"
  using unsigned_less [where ?'a = nat, of b] by simp

lemma toHexString_concat:
  "toHexString bs = concat (map (\<lambda>b. [hex_digit (unat b div 16), hex_digit (unat b mod 16)]) bs)"
proof -
  have "foldl put_hex_byte out bs =
      out @ concat (map (\<lambda>b. [hex_digit (unat b div 16), hex_digit (unat b mod 16)]) bs)" for out
    by (induction bs arbitrary: out) (simp_all add: put_hex_byte_def hex_of_nat_byte)
  then show ?thesis by (simp add: toHexString_def)
qed

lemma toHexString_Nil [simp]: "toHexString [] = []"
  by (simp add: toHexString_concat)

lemma toHexString_Cons [simp]:
  "toHexString (b # bs) = hex_digit (unat b div 16) # hex_digit (unat b mod 16) # toHexString bs"
  by (simp add: toHexString_concat)

lemma length_toHexString [simp]: "length (toHexString bs) = 2 * length bs"
  by (induction bs) auto

definition lower_hex :: "char set" where
  "lower_hex = set ''0123456789abcdef''"

lemma upt_16: "[0..<16] = [0, 1, 2, 3, 4, 5, 6, 7, 8, 9, 10, 11, 12, 13, 14, 15]"
  by code_simp

lemma hex_digit_facts_all:
  "\<forall>n \<in> set [0..<16]. hex_value (hex_digit n) = Some n \<and> \<not> is_space (hex_digit n) \<and>
     hex_digit n \<noteq> CHR ''-'' \<and> hex_digit n \<noteq> CHR ''+'' \<and> hex_digit n \<noteq> CHR ''x'' \<and>
     hex_digit n \<noteq> CHR ''X'' \<and> hex_digit n \<in> lower_hex"
  by (simp add: upt_16 hex_digit_def hex_value_def is_space_def lower_hex_def)

lemma hex_digit_facts:
  assumes "n < 16"
  shows "hex_value (hex_digit n) = Some n" "\<not> is_space (hex_digit n)"
    "hex_digit n \<noteq> CHR ''-''" "hex_digit n \<noteq> CHR ''+''" "hex_digit n \<noteq> CHR ''x''"
    "hex_digit n \<noteq> CHR ''X''" "hex_digit n \<in> lower_hex" "is_hex (hex_digit n)"
  using hex_digit_facts_all assms by (auto simp: is_hex_def)

lemma lower_hex_digit: "c \<in> lower_hex \<Longrightarrow> \<exists>n < 16. c = hex_digit n"
proof -
  assume "c \<in> lower_hex"
  then obtain n where "n < length ''0123456789abcdef''" and "c = ''0123456789abcdef'' ! n"
    unfolding lower_hex_def by (metis in_set_conv_nth)
  then show ?thesis by (auto simp: hex_digit_def intro!: exI [of _ n])
qed

lemma stoi16_two_digits:
  assumes "a < 16" and "b < 16"
  shows "stoi16 [hex_digit a, hex_digit b] = Inr (int (16 * a + b))"
proof -
  note A = hex_digit_facts [OF assms(1)] and B = hex_digit_facts [OF assms(2)]
  have "strtol16 [hex_digit a, hex_digit b] = Some (int (16 * a + b))"
    by (simp add: strtol16_def skip_sign_def skip_0x_def A B)
  then show ?thesis using assms by (simp add: stoi16_def)
qed

lemma from_hex_loop_Nil [simp]: "from_hex_loop [] bs = Inr bs"
  by (subst from_hex_loop.simps) simp

lemma from_hex_loop_step:
  "from_hex_loop (a # b # cs) bs =
     (case stoi16 [a, b] of Inl e \<Rightarrow> Inl e | Inr v \<Rightarrow> from_hex_loop cs (bs @ [word_of_int v]))"
  by (subst from_hex_loop.simps) (simp add: numeral_2_eq_2 split: sum.split)

lemma from_hex_loop_last:
  "from_hex_loop [a] bs = (case stoi16 [a] of Inl e \<Rightarrow> Inl e | Inr v \<Rightarrow> Inr (bs @ [word_of_int v]))"
  by (subst from_hex_loop.simps) (auto split: sum.splits)

lemma byte_of_nibbles: "word_of_int (int (16 * (unat (b :: u8) div 16) + unat b mod 16)) = b"
  by simp

lemma from_hex_loop_toHexString: "from_hex_loop (toHexString bs) acc = Inr (acc @ bs)"
proof (induction bs arbitrary: acc)
  case Nil
  then show ?case by simp
next
  case (Cons b bs)
  have "unat b div 16 < 16" and "unat b mod 16 < 16"
    using unat_byte [of b] by (auto intro: less_mult_imp_div_less)
  then show ?case
    by (simp add: from_hex_loop_step stoi16_two_digits Cons.IH del: of_nat_add of_nat_mult)
qed

text \<open>What one chunk of two characters, or the last one of an odd string, can give.\<close>

lemma hex_value_bound: "hex_value c = Some d \<Longrightarrow> d < 16"
  by (auto simp: hex_value_def Let_def split: if_splits)

lemma hex_fold_bound:
  "hex_fold acc ds < (acc + 1) * 16 ^ length ds"
proof (induction ds arbitrary: acc)
  case Nil
  then show ?case by simp
next
  case (Cons c cs)
  let ?d = "case hex_value c of Some d \<Rightarrow> d | None \<Rightarrow> 0"
  have "?d < 16" by (auto split: option.split dest: hex_value_bound)
  then have "(16 * acc + ?d + 1) * 16 ^ length cs \<le> (16 * acc + 16) * 16 ^ length cs"
    by (intro mult_right_mono) auto
  from less_le_trans [OF Cons.IH this] show ?case by (simp add: algebra_simps)
qed

lemma length_skip:
  "length (snd (skip_sign s)) \<le> length s" "length (skip_0x s) \<le> length s"
  by (auto simp: skip_sign_def skip_0x_def split: list.splits)

lemma stoi16_chunk:
  assumes "length s \<le> 2"
  shows "(\<exists>v. stoi16 s = Inr v \<and> - 256 < v \<and> v < 256) \<or> stoi16 s = Inl (Invalid_argument ''stoi'')"
proof -
  let ?s1 = "snd (skip_sign (dropWhile is_space s))"
  let ?ds = "takeWhile is_hex (skip_0x ?s1)"
  have "length ?ds \<le> length s"
    by (meson length_skip length_dropWhile_le length_takeWhile_le order_trans)
  with assms have "length ?ds \<le> 2" by simp
  then have "(16::nat) ^ length ?ds \<le> 16 ^ 2" by (intro power_increasing) auto
  with hex_fold_bound [of 0 ?ds] have b: "hex_fold 0 ?ds < 256" by simp
  show ?thesis
  proof (cases "?ds = []")
    case True
    then show ?thesis by (simp add: stoi16_def strtol16_def case_prod_beta Let_def)
  next
    case False
    with b show ?thesis by (auto simp: stoi16_def strtol16_def case_prod_beta Let_def)
  qed
qed

text \<open>A chunk converts exactly when \<open>strtol\<close> finds a digit in it.\<close>

definition chunk_ok :: "string \<Rightarrow> bool" where
  "chunk_ok s \<longleftrightarrow> strtol16 s \<noteq> None"

lemma stoi16_chunk_ok:
  assumes "length s \<le> 2"
  shows "(\<exists>v. stoi16 s = Inr v) \<longleftrightarrow> chunk_ok s"
  using stoi16_chunk [OF assms] by (auto simp: chunk_ok_def stoi16_def split: option.splits if_splits)

function chunks :: "string \<Rightarrow> string list" where
  "chunks s = (if s = [] then [] else take 2 s # chunks (drop 2 s))"
  by pat_completeness auto
termination
  by (relation "measure length") auto

declare chunks.simps [simp del]

lemma from_hex_loop_outcome:
  "(\<exists>bs. from_hex_loop s acc = Inr (acc @ bs) \<and> length bs = (length s + 1) div 2) \<and> list_all chunk_ok (chunks s)
   \<or> from_hex_loop s acc = Inl (Invalid_argument ''stoi'') \<and> \<not> list_all chunk_ok (chunks s)"
proof (induction s acc rule: from_hex_loop.induct)
  case (1 s acc)
  show ?case
  proof (cases "s = []")
    case True
    then show ?thesis by (simp add: chunks.simps [of "[]"])
  next
    case False
    have len: "length (take 2 s) \<le> 2" by simp
    show ?thesis
    proof (cases "stoi16 (take 2 s)")
      case (Inl e)
      with stoi16_chunk [OF len] stoi16_chunk_ok [OF len] False show ?thesis
        by (auto simp: from_hex_loop.simps [of s] chunks.simps [of s])
    next
      case (Inr v)
      then have ok: "chunk_ok (take 2 s)" using stoi16_chunk_ok [OF len] by blast
      have half: "(length s + 1) div 2 = Suc ((length (drop 2 s) + 1) div 2)"
        using False by (cases s; cases "tl s") auto
      from "1.IH" [OF False Inr] False Inr ok show ?thesis
        unfolding from_hex_loop.simps [of s acc] chunks.simps [of s] half by auto
    qed
  qed
qed

lemma from_hex_loop_lower:
  assumes "set s \<subseteq> lower_hex" and "even (length s)"
  shows "\<exists>bs. from_hex_loop s acc = Inr (acc @ bs) \<and> toHexString bs = s"
  using assms
proof (induction s arbitrary: acc rule: induct_list012)
  case (3 x y zs)
  then obtain a b where ab: "a < 16" "b < 16" "x = hex_digit a" "y = hex_digit b"
    by (auto dest!: lower_hex_digit)
  let ?w = "word_of_int (int (16 * a + b)) :: u8"
  have "set zs \<subseteq> lower_hex" and "even (length zs)" using "3.prems" by auto
  from "3.IH"(1) [OF this] obtain bs
    where bs: "from_hex_loop zs (acc @ [?w]) = Inr ((acc @ [?w]) @ bs)" "toHexString bs = zs"
    by blast
  have "unat ?w = 16 * a + b"
    using ab(1,2) by (simp add: unat_of_nat del: of_nat_add of_nat_mult)
  then have "unat ?w div 16 = a" and "unat ?w mod 16 = b" using ab(2) by simp_all
  with ab bs show ?case
    by (intro exI [of _ "?w # bs"])
       (simp add: from_hex_loop_step stoi16_two_digits del: of_nat_add of_nat_mult)
qed auto

section \<open>The codec as an interface\<close>

text \<open>
  What a caller that stores bytes as text needs of an encoder and a decoder. The password code
  is such a caller: it keeps the salt of an account in hexadecimal.
\<close>

locale hex_codec =
  fixes encode :: "'b list \<Rightarrow> string"
    and decode :: "string \<Rightarrow> exn + 'b list"
  assumes decode_encode: "decode (encode bs) = Inr bs"
begin

lemma encode_inject: "encode a = encode b \<longleftrightarrow> a = b"
  by (metis decode_encode sum.inject(2))

lemma decode_onto: "\<exists>s. decode s = Inr bs"
  using decode_encode by blast

end

interpretation hex: hex_codec toHexString fromHexString
  by unfold_locales (simp add: fromHexString_def from_hex_loop_toHexString)

section \<open>Properties\<close>

lemma fromHexString_if:
  "if list_all chunk_ok (chunks s)
   then (\<exists>bs. fromHexString s = Inr bs \<and> length bs = (length s + 1) div 2)
   else fromHexString s = Inl (Invalid_argument ''stoi'')"
  using from_hex_loop_outcome [of s "[]"] by (auto simp: fromHexString_def)

lemma fromHexString_lower:
  "set s \<subseteq> lower_hex \<Longrightarrow> even (length s) \<Longrightarrow> \<exists>bs. fromHexString s = Inr bs \<and> toHexString bs = s"
  using from_hex_loop_lower [of s "[]"] by (auto simp: fromHexString_def)

text \<open>
  C39: hexadecimal text read back. Whatever bytes are printed, reading the text gives them back, and two
  different byte strings never print alike.
\<close>

theorem hex_roundtrip:
  "fromHexString (toHexString bs) = Inr bs \<and> (toHexString bs = toHexString cs \<longleftrightarrow> bs = cs)"
  by (simp add: hex.decode_encode hex.encode_inject)

text \<open>
  on the texts the program stores, an even number of lower-case digits, reading is the inverse of
  printing too: the bytes that are read print as that text.
\<close>

theorem hex_inverse:
  assumes "set s \<subseteq> lower_hex" and "even (length s)"
  shows "\<exists>bs. fromHexString s = Inr bs \<and> toHexString bs = s \<and> 2 * length bs = length s"
proof -
  obtain bs where bs: "fromHexString s = Inr bs" "toHexString bs = s" using fromHexString_lower [OF assms] by blast
  have "length bs = (length s + 1) div 2" using fromHexString_if [of s] bs(1) by (auto split: if_splits)
  with assms(2) bs show ?thesis by (auto elim!: evenE)
qed

theorem hex_inverse_witness:
  "\<exists>bs. fromHexString ''00ff7a'' = Inr bs \<and> toHexString bs = ''00ff7a'' \<and> 2 * length bs = 6"
proof -
  have "set ''00ff7a'' \<subseteq> lower_hex" by (simp add: lower_hex_def)
  from hex_inverse [OF this] show ?thesis by auto
qed

text \<open>
  Reading any text. It is cut into pairs, the last of which may be a single character; if every one
  of them begins with a number for \<open>strtol\<close>, there is one byte for each, otherwise \<open>stoi\<close> throws
  \<open>invalid_argument\<close>, and nothing else is ever thrown: a pair cannot be out of range.
\<close>

theorem hex_outcome:
  "if list_all chunk_ok (chunks s)
   then (\<exists>bs. fromHexString s = Inr bs \<and> length bs = (length s + 1) div 2)
   else fromHexString s = Inl (Invalid_argument ''stoi'')"
  by (rule fromHexString_if)

text \<open>
  Reading is more lenient than hexadecimal. A sign, a leading blank, an odd digit at the end and a
  second character that is no digit are all accepted, so that different texts read as the same bytes.
\<close>

theorem hex_lenient:
  "fromHexString ''-1'' = Inr [255] \<and> fromHexString '' 5'' = Inr [5] \<and> fromHexString ''1g'' = Inr [1] \<and>
   fromHexString ''0a1'' = Inr [10, 1] \<and> fromHexString ''FF'' = fromHexString ''ff'' \<and>
   fromHexString ''zz'' = Inl (Invalid_argument ''stoi'')"
  by code_simp

end
