(* ===== verification/Externals.thy ===== *)
theory Externals
  imports Utility
begin

text \<open>
  What the program uses of code that is not in the repository, gathered in one record that every
  definition using it takes as its argument \<open>L\<close>: nlohmann::json, jwt-cpp, argon2, the file system
  and the time formatting of the platform, and the configuration values that CMake writes into
  \<^verbatim>\<open>config.hpp\<close>. Nothing is assumed of them here. The predicates at the end name the
  documented behaviour that some properties use as a hypothesis.
\<close>

section \<open>Claims of a token\<close>

text \<open>What \<open>jwt::create()\<close> is given before \<open>sign\<close>: times are ticks of the system clock.\<close>

record jwt_claims =
  jwt_type :: string
  jwt_issuer :: string
  jwt_issued_at :: nat
  jwt_expires_at :: nat
  jwt_payload :: "(string \<times> string) list"

section \<open>The record of externals\<close>

text \<open>
  \<open>'j\<close> is the type of JSON values, \<open>'d\<close> the type of decoded tokens. Functions that can throw
  return a sum.
  \<^item> \<open>json_parse\<close> is \<open>json::parse\<close>; \<open>json_at_string j k\<close> is \<open>std::string x = j[k]\<close>; \<open>json_null\<close> is a
    default-constructed value; \<open>json_put j k v\<close> is \<open>j[k] = v\<close> on the null value or an object;
    \<open>json_object\<close> is the initializer list \<open>{{k, v}, ...}\<close>; \<open>json_dump\<close> and \<open>json_dump_indent\<close> are
    \<open>dump()\<close> and \<open>dump(n)\<close>, which throw on a string that is not valid UTF-8.
  \<^item> \<open>argon2i_hash_raw t m p pwd salt n\<close> gives the return code and the \<open>n\<close>-byte buffer it leaves.
  \<^item> \<open>jwt_sign\<close>, \<open>jwt_decode\<close> and \<open>jwt_verify secret issuer now\<close> are the HS256 builder, \<open>jwt::decode\<close>
    and \<open>jwt::verify().allow_algorithm(hs256{secret}).with_issuer(issuer).verify\<close> at time \<open>now\<close>.
  \<^item> \<open>create_directories p\<close> is the exception it throws, if any; \<open>open_append p\<close> says whether a file
    can be opened for appending; \<open>put_date\<close> and \<open>put_datetime\<close> are \<open>put_time(localtime(t))\<close> with the
    two formats the logger uses.
\<close>

record ('j, 'd) lib =
  json_parse :: "string \<Rightarrow> exn + 'j"
  json_at_string :: "'j \<Rightarrow> string \<Rightarrow> exn + string"
  json_null :: 'j
  json_put :: "'j \<Rightarrow> string \<Rightarrow> 'j \<Rightarrow> 'j"
  json_bool :: "bool \<Rightarrow> 'j"
  json_string :: "string \<Rightarrow> 'j"
  json_int :: "int \<Rightarrow> 'j"
  json_object :: "(string \<times> 'j) list \<Rightarrow> 'j"
  json_dump :: "'j \<Rightarrow> exn + string"
  json_dump_indent :: "nat \<Rightarrow> 'j \<Rightarrow> exn + string"
  argon2i_hash_raw :: "32 word \<Rightarrow> 32 word \<Rightarrow> 32 word \<Rightarrow> string \<Rightarrow> u8 list \<Rightarrow> nat \<Rightarrow> int \<times> u8 list"
  jwt_sign :: "string \<Rightarrow> jwt_claims \<Rightarrow> exn + string"
  jwt_decode :: "string \<Rightarrow> exn + 'd"
  jwt_verify :: "string \<Rightarrow> string \<Rightarrow> nat \<Rightarrow> 'd \<Rightarrow> exn + unit"
  env_HOME :: "string option"
  create_directories :: "string \<Rightarrow> exn option"
  open_append :: "string \<Rightarrow> bool"
  put_date :: "nat \<Rightarrow> string"
  put_datetime :: "nat \<Rightarrow> string"
  secret_key :: string
  project_name :: string
  doc_root :: string
  server_address :: string
  server_port :: string

section \<open>Documented behaviour used as hypotheses\<close>

text \<open>\<open>nlohmann::json\<close> throws nothing but \<open>json::exception\<close> from the calls the code makes.\<close>

definition json_throws_json :: "('j, 'd) lib \<Rightarrow> bool" where
  "json_throws_json L \<longleftrightarrow>
     (\<forall>s e. json_parse L s = Inl e \<longrightarrow> is_json e) \<and>
     (\<forall>j k e. json_at_string L j k = Inl e \<longrightarrow> is_json e) \<and>
     (\<forall>j e. json_dump L j = Inl e \<longrightarrow> is_json e) \<and>
     (\<forall>n j e. json_dump_indent L n j = Inl e \<longrightarrow> is_json e)"

text \<open>A string member reads back as it was set, and members are independent.\<close>

definition json_laws :: "('j, 'd) lib \<Rightarrow> bool" where
  "json_laws L \<longleftrightarrow>
     (\<forall>j k v. json_at_string L (json_put L j k (json_string L v)) k = Inr v) \<and>
     (\<forall>j k k' v. k \<noteq> k' \<longrightarrow> json_at_string L (json_put L j k v) k' = json_at_string L j k')"

text \<open>Everything a library call throws is a \<open>std::exception\<close>.\<close>

definition lib_throws_std :: "('j, 'd) lib \<Rightarrow> bool" where
  "lib_throws_std L \<longleftrightarrow> json_throws_json L \<and>
     (\<forall>k c e. jwt_sign L k c = Inl e \<longrightarrow> is_std e) \<and>
     (\<forall>t e. jwt_decode L t = Inl e \<longrightarrow> is_std e) \<and>
     (\<forall>k i n d e. jwt_verify L k i n d = Inl e \<longrightarrow> is_std e)"

text \<open>
  jwt-cpp: a signed token decodes, is accepted with the key it was signed with by a verifier that
  expects its issuer, from its issue time until its expiry (which it stores in whole seconds,
  so the last second is not promised), and rejected by one that expects another issuer or when it
  has expired.
\<close>

definition ticks_per_second :: nat where
  "ticks_per_second = 10 ^ 9"

definition jwt_laws :: "('j, 'd) lib \<Rightarrow> bool" where
  "jwt_laws L \<longleftrightarrow>
     (\<forall>k c t. jwt_sign L k c = Inr t \<longrightarrow>
        (\<exists>d. jwt_decode L t = Inr d \<and>
             (\<forall>i n. (i = jwt_issuer c \<and> jwt_issued_at c \<le> n \<and> n + ticks_per_second \<le> jwt_expires_at c \<longrightarrow>
                      jwt_verify L k i n d = Inr ()) \<and>
                    (i \<noteq> jwt_issuer c \<or> jwt_expires_at c < n \<longrightarrow>
                      (\<exists>e. jwt_verify L k i n d = Inl e)))))"

lemma lib_throws_stdD:
  assumes "lib_throws_std L"
  shows "json_parse L s = Inl e \<Longrightarrow> is_json e" "json_at_string L j k = Inl e \<Longrightarrow> is_json e"
    "json_dump L j = Inl e \<Longrightarrow> is_json e" "json_dump_indent L n j = Inl e \<Longrightarrow> is_json e"
    "jwt_sign L k c = Inl e \<Longrightarrow> is_std e" "jwt_decode L k = Inl e \<Longrightarrow> is_std e"
    "jwt_verify L k i n d = Inl e \<Longrightarrow> is_std e"
  using assms unfolding lib_throws_std_def json_throws_json_def by blast+

end
