(* ===== verification/LogService.thy ===== *)
theory LogService
  imports Externals
begin

text \<open>
  \<^verbatim>\<open>src/Utility/LogService.{h,cc}\<close> and \<^verbatim>\<open>src/Utility/AppConfiguration.h\<close>: the logger, the singleton
  that holds it, the queue that \<open>log\<close> fills, and the macro \<open>LOG\<close>. The worker thread that empties the
  queue and the destructor are the step relation of the theory \<open>LogWorker\<close>.
\<close>

section \<open>Levels\<close>

datatype log_level = DEBUG | INFO | WARN | ERROR

text \<open>The underlying integers of the \<open>enum class\<close>, which \<open>level < currentLevel\<close> compares.\<close>

fun level_rank :: "log_level \<Rightarrow> nat" where
  "level_rank DEBUG = 0"
| "level_rank INFO = 1"
| "level_rank WARN = 2"
| "level_rank ERROR = 3"

lemma level_rank_inject: "level_rank a = level_rank b \<longleftrightarrow> a = b"
  by (cases a; cases b) auto

instantiation log_level :: linorder
begin

definition less_eq_log_level :: "log_level \<Rightarrow> log_level \<Rightarrow> bool" where
  "less_eq_log_level a b \<longleftrightarrow> level_rank a \<le> level_rank b"

definition less_log_level :: "log_level \<Rightarrow> log_level \<Rightarrow> bool" where
  "less_log_level a b \<longleftrightarrow> level_rank a < level_rank b"

instance
  by standard (auto simp: less_eq_log_level_def less_log_level_def level_rank_inject [symmetric])

end

fun logLevelToString :: "log_level \<Rightarrow> string" where
  "logLevelToString DEBUG = ''DEBUG''"
| "logLevelToString INFO = ''INFO''"
| "logLevelToString WARN = ''WARN''"
| "logLevelToString ERROR = ''ERROR''"

section \<open>The service and the state of the process it lives in\<close>

text \<open>
  \<open>logFile\<close> is the path of the file while it is open. The mutex, the condition variable and the
  worker thread belong to the concurrent model in \<open>LogWorker\<close>.
\<close>

record log_service =
  currentLevel :: log_level
  running :: bool
  messageQueue :: "string list"
  logFile :: "string option"
  currentLogDate :: string

text \<open>
  The part of the process state that the utilities see. \<open>clk_seq\<close> are the successive readings of
  \<open>std::chrono::system_clock::now()\<close>, \<open>rng_seq\<close> the successive values of the salt generator's
  distribution, each with the number of values drawn so far; \<open>rng_error\<close> is the exception
  \<open>std::random_device\<close> throws when the platform has no entropy. Components with more state extend
  this record.
\<close>

record sys =
  clk_seq :: "nat \<Rightarrow> nat"
  clk_pos :: nat
  rng_seq :: "nat \<Rightarrow> int"
  rng_pos :: nat
  rng_error :: "exn option"
  log_instance :: "log_service option"
  log_stderr :: "string list"

definition system_now :: "('a sys_scheme, nat) prog" where
  "system_now = (\<lambda>s. (Inr (clk_seq s (clk_pos s)), s\<lparr>clk_pos := Suc (clk_pos s)\<rparr>))"

section \<open>AppPathService\<close>

text \<open>
  \<open>getenv("HOME")\<close> may be null, and a \<open>std::filesystem::path\<close> made of a null pointer is undefined.
  \<open>path / folder\<close> puts a separator between the two unless the first ends in one or is empty.
\<close>

definition path_append :: "string \<Rightarrow> string \<Rightarrow> string" where
  "path_append p q = (if p = [] \<or> last p = CHR ''/'' then p @ q else p @ ''/'' @ q)"

definition getAppDataPath :: "('j, 'd) lib \<Rightarrow> ('a sys_scheme, string) prog" where
  "getAppDataPath L =
     (case env_HOME L of
        None \<Rightarrow> throw (Undefined ''path(nullptr)'')
      | Some home \<Rightarrow>
          (let homePath = path_append home (project_name L @ ''/logs'') in
           case create_directories L homePath of
             Some e \<Rightarrow> throw e
           | None \<Rightarrow> ret homePath))"

section \<open>Construction\<close>

definition getCurrentDate :: "('j, 'd) lib \<Rightarrow> ('a sys_scheme, string) prog" where
  "getCurrentDate L = seq system_now (\<lambda>now. ret (put_date L now))"

text \<open>
  \<open>openLogFile\<close>, on the service under construction: closes the file that is open, opens the file of
  \<open>currentLogDate\<close> for appending, and says so on \<open>std::cerr\<close> when that fails.
\<close>

definition openLogFile :: "('j, 'd) lib \<Rightarrow> log_service \<Rightarrow> ('a sys_scheme, log_service) prog" where
  "openLogFile L svc =
     (let closed = (if logFile svc \<noteq> None then svc\<lparr>logFile := None\<rparr> else svc);
          logFileName = ''/'' @ currentLogDate closed @ ''-application.log'' in
      seq (getAppDataPath L) (\<lambda>dir.
        let logFilePath = dir @ logFileName in
        if open_append L logFilePath then ret (closed\<lparr>logFile := Some logFilePath\<rparr>)
        else seq (modify (\<lambda>s. s\<lparr>log_stderr := log_stderr s @ [''Failed to open log file: '' @ logFilePath]\<rparr>))
               (\<lambda>_. ret (closed\<lparr>logFile := None\<rparr>))))"

definition new_LogService :: "('j, 'd) lib \<Rightarrow> ('a sys_scheme, log_service) prog" where
  "new_LogService L =
     seq (getCurrentDate L) (\<lambda>date.
     openLogFile L \<lparr>currentLevel = DEBUG, running = True, messageQueue = [], logFile = None,
                    currentLogDate = date\<rparr>)"

text \<open>\<open>getInstance\<close>: the reference it returns is the field \<open>log_instance\<close>, filled on the first call.\<close>

definition getInstance :: "('j, 'd) lib \<Rightarrow> ('a sys_scheme, log_service) prog" where
  "getInstance L =
     seq (get log_instance) (\<lambda>i.
     case i of
       Some svc \<Rightarrow> ret svc
     | None \<Rightarrow> seq (new_LogService L) (\<lambda>svc.
                 seq (modify (\<lambda>s. s\<lparr>log_instance := Some svc\<rparr>)) (\<lambda>_. ret svc)))"

definition setLevel :: "log_level \<Rightarrow> log_service \<Rightarrow> log_service" where
  "setLevel level svc = svc\<lparr>currentLevel := level\<rparr>"

section \<open>Logging\<close>

text \<open>Where the macro \<open>LOG\<close> stands: \<open>__FILE__\<close>, \<open>__LINE__\<close>, \<open>__FUNCTION__\<close>.\<close>

type_synonym site = "string \<times> int \<times> string"

text \<open>\<open>std::filesystem::path(file).filename()\<close>: what follows the last separator.\<close>

definition path_filename :: "string \<Rightarrow> string" where
  "path_filename p = rev (takeWhile (\<lambda>c. c \<noteq> CHR ''/'') (rev p))"

definition log_entry_json ::
  "('j, 'd) lib \<Rightarrow> string \<Rightarrow> log_level \<Rightarrow> string \<Rightarrow> string \<Rightarrow> int \<Rightarrow> string \<Rightarrow> 'j" where
  "log_entry_json L timestamp level message filename line fn =
     json_object L [(''timestamp'', json_string L timestamp),
                    (''level'', json_string L (logLevelToString level)),
                    (''message'', json_string L message),
                    (''file'', json_string L filename),
                    (''line'', json_int L line),
                    (''function'', json_string L fn)]"

definition push_message :: "string \<Rightarrow> 'a log_service_scheme \<Rightarrow> 'a log_service_scheme" where
  "push_message m svc = svc\<lparr>messageQueue := messageQueue svc @ [m]\<rparr>"

definition log_message ::
  "('j, 'd) lib \<Rightarrow> log_service \<Rightarrow> string \<Rightarrow> log_level \<Rightarrow> site \<Rightarrow> ('a sys_scheme, unit) prog" where
  "log_message L svc message level at =
     (case at of (file, line, fn) \<Rightarrow>
      if level < currentLevel svc then ret ()
      else
        (let filename = path_filename file in
         seq system_now (\<lambda>now.
         seq (call (json_dump_indent L 4
                (log_entry_json L (put_datetime L now) level message filename line fn))) (\<lambda>logEntry.
         modify (\<lambda>s. s\<lparr>log_instance := map_option (push_message logEntry) (log_instance s)\<rparr>)))))"

text \<open>The macro: \<open>LogService::getInstance().log(message, level, __FILE__, __LINE__, __FUNCTION__)\<close>.\<close>

definition LOG :: "('j, 'd) lib \<Rightarrow> log_level \<Rightarrow> string \<Rightarrow> site \<Rightarrow> ('a sys_scheme, unit) prog" where
  "LOG L level message at = seq (getInstance L) (\<lambda>svc. log_message L svc message level at)"

lemma wp_system_now [wp_rules]:
  "wp system_now Q s = Q (Inr (clk_seq s (clk_pos s))) (s\<lparr>clk_pos := Suc (clk_pos s)\<rparr>)"
  by (simp add: wp_def system_now_def)

section \<open>What logging leaves alone, and when it cannot throw\<close>

lemmas log_defs = LOG_def log_message_def getInstance_def new_LogService_def openLogFile_def
  getCurrentDate_def getAppDataPath_def system_now_def

lemma keeps_system_now:
  "(\<And>s n. f (s\<lparr>clk_pos := n\<rparr>) = f s) \<Longrightarrow> keeps f system_now"
  by (simp add: keeps_def system_now_def)

text \<open>
  \<open>LOG\<close> touches three fields: the clock position, the singleton and \<open>std::cerr\<close>. Any part of the
  state that does not depend on them is left alone.
\<close>

definition log_blind :: "('a sys_scheme \<Rightarrow> 'b) \<Rightarrow> bool" where
  "log_blind f \<longleftrightarrow> (\<forall>s n i e. f (s\<lparr>clk_pos := n\<rparr>) = f s \<and> f (s\<lparr>log_instance := i\<rparr>) = f s \<and>
     f (s\<lparr>log_stderr := e\<rparr>) = f s)"

lemma keeps_LOG:
  assumes "log_blind f"
  shows "keeps f (LOG L level message at)"
proof -
  note f = assms [unfolded log_blind_def, rule_format]
  have now: "keeps f system_now"
    by (rule keeps_system_now) (simp add: f)
  have path: "keeps f (getAppDataPath L)"
    by (auto simp: getAppDataPath_def Let_def intro!: keeps_rules)
  have new: "keeps f (new_LogService L)"
    unfolding new_LogService_def getCurrentDate_def openLogFile_def Let_def
    by (intro keeps_rules now path keeps_modify) (simp_all add: f)
  have inst: "keeps f (getInstance L)"
    unfolding getInstance_def by (intro keeps_rules new keeps_modify) (simp_all add: f)
  show ?thesis
    unfolding LOG_def log_message_def Let_def
    by (intro keeps_rules inst now keeps_modify) (simp_all add: f)
qed

text \<open>
  \<open>log_total\<close>: HOME is set, the log directory can be made and every log entry serialises. This is
  what keeps \<open>LOG\<close> from throwing.
\<close>

definition log_total :: "('j, 'd) lib \<Rightarrow> bool" where
  "log_total L \<longleftrightarrow> env_HOME L \<noteq> None \<and> (\<forall>p. create_directories L p = None) \<and>
     (\<forall>n j. \<exists>s. json_dump_indent L n j = Inr s)"

lemma log_message_fst:
  "log_total L \<Longrightarrow> fst (log_message L svc message level at s) = Inr ()"
  unfolding log_total_def log_message_def Let_def
  by (cases at) (auto simp: prog_defs system_now_def split: sum.splits, metis Inl_Inr_False)

lemma getInstance_fst:
  "log_total L \<Longrightarrow> \<exists>svc. fst (getInstance L s) = Inr svc"
  unfolding log_total_def
  by (auto simp: prog_defs log_defs Let_def split: option.splits)

lemma LOG_fst: "log_total L \<Longrightarrow> fst (LOG L level message at s) = Inr ()"
  using getInstance_fst [of L s]
  by (auto simp: LOG_def seq_def log_message_fst split: prod.splits)

lemma LOG_nothrow: "log_total L \<Longrightarrow> nothrow (LOG L level message at)"
  by (simp add: nothrow_def LOG_fst)

text \<open>
  The whole effect of \<open>LOG\<close> on the state, for the weakest-precondition proofs of its callers: whatever
  it returns or throws, only those three fields may have changed.
\<close>

lemma LOG_effect:
  "\<exists>n i e. snd (LOG L level message at s) = s\<lparr>clk_pos := n, log_instance := i, log_stderr := e\<rparr>"
proof -
  let ?f = "\<lambda>s. s\<lparr>clk_pos := 0, log_instance := None, log_stderr := []\<rparr>"
  let ?t = "snd (LOG L level message at s)"
  have "?f ?t = ?f s"
    by (rule keepsD [OF keeps_LOG]) (simp add: log_blind_def)
  then have "(?f ?t)\<lparr>clk_pos := clk_pos ?t, log_instance := log_instance ?t, log_stderr := log_stderr ?t\<rparr> =
      (?f s)\<lparr>clk_pos := clk_pos ?t, log_instance := log_instance ?t, log_stderr := log_stderr ?t\<rparr>"
    by simp
  then show ?thesis by auto
qed

lemma wp_LOG [wp_intros]:
  assumes "\<And>r n i e. (log_total L \<Longrightarrow> r = Inr ()) \<Longrightarrow>
    Q r (s\<lparr>clk_pos := n, log_instance := i, log_stderr := e\<rparr>)"
  shows "wp (LOG L level message at) Q s"
proof -
  obtain n i e where "snd (LOG L level message at s) = s\<lparr>clk_pos := n, log_instance := i, log_stderr := e\<rparr>"
    using LOG_effect by blast
  with assms LOG_fst show ?thesis by (metis wp_outcome)
qed

text \<open>The shape of most handlers: log, then return a value.\<close>

lemma wp_LOG_ret [wp_intros]:
  assumes "\<And>r n i e. (log_total L \<Longrightarrow> r = Inr x) \<Longrightarrow> r = Inr x \<or> (\<exists>ex. r = Inl ex) \<Longrightarrow>
    Q r (s\<lparr>clk_pos := n, log_instance := i, log_stderr := e\<rparr>)"
  shows "wp (seq (LOG L level message at) (\<lambda>_. ret x)) Q s"
  unfolding wp_seq by (rule wp_LOG) (auto intro!: assms simp: wp_ret split: sum.split)

lemma wp_catch_LOG_ret:
  assumes "wp m (\<lambda>r t. case r of
      Inl e \<Rightarrow> if c e
        then \<forall>r' n i er. (log_total L \<longrightarrow> r' = Inr (x e)) \<and> (r' = Inr (x e) \<or> (\<exists>ex. r' = Inl ex)) \<longrightarrow>
               Q r' (t\<lparr>clk_pos := n, log_instance := i, log_stderr := er\<rparr>)
        else Q (Inl e) t
    | Inr v \<Rightarrow> Q (Inr v) t) s"
  shows "wp (catch m c (\<lambda>e. seq (LOG L (level e) (msg e) (at e)) (\<lambda>_. ret (x e)))) Q s"
  unfolding wp_catch
proof (rule wp_conseq [OF assms], goal_cases)
  case (1 r t)
  then show ?case
    by (cases r) (auto intro!: wp_LOG_ret split: if_splits)
qed

lemma preserves_LOG:
  assumes "\<And>s n i e. I s \<Longrightarrow> I (s\<lparr>clk_pos := n, log_instance := i, log_stderr := e\<rparr>)"
  shows "preserves I (LOG L level message at)"
  using LOG_effect [of L level message at] assms unfolding preserves_def by metis

end
