(* ===== verification/LogWorker.thy ===== *)
theory LogWorker
  imports LogService
begin

text \<open>
  The concurrent part of \<^verbatim>\<open>src/Utility/LogService.cc\<close>: the worker thread \<open>processMessages\<close>, the threads
  that call \<open>log\<close>, and the destructor, as a step relation. A step is what one thread does between two
  points where another can interfere. The mutex is held by the worker exactly at the program points
  \<open>worker_holds\<close>; the critical section of \<open>log\<close> is one step, taken when the mutex is free, and the
  \<open>notify_one\<close> after it is another. \<open>condition.wait(lock, p)\<close> is the loop the standard prescribes,
  \<open>while (!p()) wait(lock)\<close>: testing \<open>p\<close> and going to sleep are two steps, both with the mutex held,
  and a notification reaches only a thread that sleeps. The standard also allows, and never promises,
  spurious wake-ups: they are a step of their own.
\<close>

section \<open>State\<close>

datatype worker_pc =
    W_While            \<comment> \<open>evaluating \<open>running || !messageQueue.empty()\<close>, without the mutex\<close>
  | W_Lock             \<comment> \<open>at \<open>lock.lock()\<close>\<close>
  | W_Pred             \<comment> \<open>mutex held, evaluating the predicate of \<open>wait\<close>\<close>
  | W_Block            \<comment> \<open>mutex held, the predicate was false, about to sleep\<close>
  | W_Waiting          \<comment> \<open>asleep, mutex released\<close>
  | W_Wake             \<comment> \<open>notified, about to take the mutex again\<close>
  | W_Inner            \<comment> \<open>mutex held, at the inner \<open>while\<close>\<close>
  | W_Write string     \<comment> \<open>mutex released, writing the message it popped\<close>
  | W_Relock           \<comment> \<open>at the \<open>lock.lock()\<close> after the write\<close>
  | W_Done             \<comment> \<open>the thread function has returned\<close>

datatype dtor_pc =
    D_Alive            \<comment> \<open>the destructor has not started\<close>
  | D_Stopped          \<comment> \<open>\<open>running = false\<close> done\<close>
  | D_Notified         \<comment> \<open>\<open>notify_one\<close> done, in \<open>worker.join()\<close>\<close>
  | D_Joined
  | D_Closed           \<comment> \<open>file closed\<close>

text \<open>
  \<open>pending_notify\<close> counts the threads between the end of \<open>log\<close>'s critical section and its
  \<open>notify_one\<close>; \<open>file_lines\<close> are the lines of the open log file. \<open>pushed\<close> and \<open>handled\<close> are history:
  the messages queued so far, and those the worker has been through the write with.
\<close>

record log_run = log_service +
  worker :: worker_pc
  dtor :: dtor_pc
  pending_notify :: nat
  file_lines :: "string list"
  pushed :: "string list"
  handled :: "string list"

definition log_start :: "log_service \<Rightarrow> log_run" where
  "log_start svc = log_service.extend svc
     \<lparr>worker = W_While, dtor = D_Alive, pending_notify = 0, file_lines = [],
      pushed = messageQueue svc, handled = []\<rparr>"

fun worker_holds :: "worker_pc \<Rightarrow> bool" where
  "worker_holds W_Pred = True"
| "worker_holds W_Block = True"
| "worker_holds W_Inner = True"
| "worker_holds _ = False"

section \<open>Steps\<close>

text \<open>One step of \<open>processMessages\<close>; \<open>None\<close> when the thread sleeps or has returned.\<close>

definition worker_step :: "log_run \<Rightarrow> log_run option" where
  "worker_step s = (case worker s of
      W_While \<Rightarrow> Some (s\<lparr>worker := if running s \<or> messageQueue s \<noteq> [] then W_Lock else W_Done\<rparr>)
    | W_Lock \<Rightarrow> Some (s\<lparr>worker := W_Pred\<rparr>)
    | W_Pred \<Rightarrow> Some (s\<lparr>worker := if \<not> running s \<or> messageQueue s \<noteq> [] then W_Inner else W_Block\<rparr>)
    | W_Block \<Rightarrow> Some (s\<lparr>worker := W_Waiting\<rparr>)
    | W_Waiting \<Rightarrow> None
    | W_Wake \<Rightarrow> Some (s\<lparr>worker := W_Pred\<rparr>)
    | W_Inner \<Rightarrow> Some (case messageQueue s of
          [] \<Rightarrow> s\<lparr>worker := W_While\<rparr>
        | m # ms \<Rightarrow> s\<lparr>messageQueue := ms, worker := W_Write m\<rparr>)
    | W_Write m \<Rightarrow> Some (s\<lparr>worker := W_Relock, handled := handled s @ [m],
          file_lines := (if logFile s \<noteq> None then file_lines s @ [m] else file_lines s)\<rparr>)
    | W_Relock \<Rightarrow> Some (s\<lparr>worker := W_Inner\<rparr>)
    | W_Done \<Rightarrow> None)"

text \<open>\<open>condition.notify_one()\<close>: wakes the worker if it sleeps, is lost otherwise.\<close>

definition notify_one :: "log_run \<Rightarrow> log_run" where
  "notify_one s = (if worker s = W_Waiting then s\<lparr>worker := W_Wake\<rparr> else s)"

text \<open>The critical section of \<open>log\<close>.\<close>

definition log_push :: "string \<Rightarrow> log_run \<Rightarrow> log_run" where
  "log_push m s = (push_message m s)\<lparr>pending_notify := Suc (pending_notify s), pushed := pushed s @ [m]\<rparr>"

text \<open>The statements of the destructor, each enabled at its program point.\<close>

definition dtor_stop :: "log_run \<Rightarrow> log_run" where
  "dtor_stop s = s\<lparr>running := False, dtor := D_Stopped\<rparr>"

definition dtor_notify :: "log_run \<Rightarrow> log_run" where
  "dtor_notify s = (notify_one s)\<lparr>dtor := D_Notified\<rparr>"

definition dtor_close :: "log_run \<Rightarrow> log_run" where
  "dtor_close s = s\<lparr>logFile := None, dtor := D_Closed\<rparr>"

text \<open>
  Calls of \<open>log\<close> happen while the object lives, and the destructor starts when no thread is inside
  \<open>log\<close> any more (anything else is undefined behaviour of the caller).
\<close>

inductive log_step :: "log_run \<Rightarrow> log_run \<Rightarrow> bool" where
  worker_moves: "worker_step s = Some t \<Longrightarrow> log_step s t"
| push: "dtor s = D_Alive \<Longrightarrow> \<not> worker_holds (worker s) \<Longrightarrow> log_step s (log_push m s)"
| spurious: "worker s = W_Waiting \<Longrightarrow> log_step s (s\<lparr>worker := W_Wake\<rparr>)"
| notify: "pending_notify s = Suc n \<Longrightarrow> log_step s ((notify_one s)\<lparr>pending_notify := n\<rparr>)"
| stop: "dtor s = D_Alive \<Longrightarrow> pending_notify s = 0 \<Longrightarrow> log_step s (dtor_stop s)"
| stop_notify: "dtor s = D_Stopped \<Longrightarrow> log_step s (dtor_notify s)"
| join: "dtor s = D_Notified \<Longrightarrow> worker s = W_Done \<Longrightarrow> log_step s (s\<lparr>dtor := D_Joined\<rparr>)"
| close: "dtor s = D_Joined \<Longrightarrow> log_step s (dtor_close s)"

inductive log_reach :: "log_run \<Rightarrow> log_run \<Rightarrow> bool" for s0 where
  start: "log_reach s0 s0"
| step: "log_reach s0 s \<Longrightarrow> log_step s t \<Longrightarrow> log_reach s0 t"

inductive_cases log_stepE: "log_step s t"

inductive_simps log_step_iff: "log_step s t"

section \<open>Invariant\<close>

fun in_flight :: "worker_pc \<Rightarrow> string list" where
  "in_flight (W_Write m) = [m]"
| "in_flight _ = []"

text \<open>
  What holds between the fields in every reachable state of a service that started with the file
  \<open>f\<close>: the queue discipline, which flags go with which point of the destructor, and that a worker
  that sleeps (or is about to) has nothing to do unless a notification is on its way.
\<close>

definition log_inv :: "string option \<Rightarrow> log_run \<Rightarrow> bool" where
  "log_inv f s \<longleftrightarrow>
     pushed s = handled s @ in_flight (worker s) @ messageQueue s \<and>
     (running s \<longleftrightarrow> dtor s = D_Alive) \<and>
     (dtor s \<noteq> D_Alive \<longrightarrow> pending_notify s = 0) \<and>
     (dtor s \<noteq> D_Closed \<longrightarrow> logFile s = f) \<and>
     (f \<noteq> None \<longrightarrow> file_lines s = handled s) \<and>
     (worker s = W_Done \<longrightarrow> \<not> running s \<and> messageQueue s = []) \<and>
     (dtor s = D_Joined \<or> dtor s = D_Closed \<longrightarrow> worker s = W_Done) \<and>
     (worker s = W_Block \<longrightarrow> messageQueue s = []) \<and>
     (worker s = W_Waiting \<longrightarrow> messageQueue s = [] \<or> pending_notify s > 0)"

lemma log_inv_start:
  "running svc \<Longrightarrow> logFile svc = f \<Longrightarrow> log_inv f (log_start svc)"
  by (simp add: log_inv_def log_start_def log_service.defs)

lemmas log_step_defs = log_push_def push_message_def notify_one_def dtor_stop_def dtor_notify_def
  dtor_close_def

lemma worker_step_inv:
  "worker_step s = Some t \<Longrightarrow> log_inv f s \<Longrightarrow> log_inv f t"
  by (cases "worker s"; cases "messageQueue s"; cases "running s"; cases f)
     (clarsimp simp: worker_step_def log_inv_def; fastforce)+

lemma log_step_inv: "log_step s t \<Longrightarrow> log_inv f s \<Longrightarrow> log_inv f t"
proof (induction rule: log_step.induct)
  case (worker_moves s t)
  then show ?case by (rule worker_step_inv)
next
  case (push s m)
  then show ?case by (cases "worker s") (clarsimp simp: log_inv_def log_step_defs)+
next
  case (notify s n)
  then show ?case by (cases "worker s") (clarsimp simp: log_inv_def log_step_defs)+
next
  case (stop_notify s)
  then show ?case by (cases "worker s") (clarsimp simp: log_inv_def log_step_defs)+
qed (simp_all add: log_inv_def log_step_defs)

lemma log_reach_inv:
  assumes "log_reach (log_start svc) s" and "running svc"
  shows "log_inv (logFile svc) s"
  using assms
  by (induction rule: log_reach.induct) (auto intro: log_inv_start log_step_inv)

section \<open>The worker on its own\<close>

text \<open>\<open>n\<close> steps of the worker with nobody else moving.\<close>

fun worker_run :: "nat \<Rightarrow> log_run \<Rightarrow> log_run" where
  "worker_run 0 s = s"
| "worker_run (Suc n) s = (case worker_step s of None \<Rightarrow> s | Some t \<Rightarrow> worker_run n t)"

lemma worker_run_reach: "log_reach s0 s \<Longrightarrow> log_reach s0 (worker_run n s)"
  by (induction n arbitrary: s)
     (auto split: option.split intro: log_reach.step log_step.worker_moves)

lemma worker_run_frame:
  "dtor (worker_run n s) = dtor s \<and> pushed (worker_run n s) = pushed s \<and> running (worker_run n s) = running s"
proof (induction n arbitrary: s)
  case (Suc n)
  have "dtor t = dtor s \<and> pushed t = pushed s \<and> running t = running s" if "worker_step s = Some t" for t
    using that by (cases "worker s") (auto simp: worker_step_def split: list.splits)
  with Suc show ?case by (auto split: option.split)
qed simp

text \<open>What shrinks once \<open>running\<close> is false: messages first, then the way to the end of the loop.\<close>

definition drain_measure :: "log_run \<Rightarrow> nat" where
  "drain_measure s = 8 * length (messageQueue s) +
     (case worker s of W_Done \<Rightarrow> 0 | W_While \<Rightarrow> (if messageQueue s = [] then 1 else 5)
      | W_Inner \<Rightarrow> 2 | W_Pred \<Rightarrow> 3 | W_Relock \<Rightarrow> 3 | W_Lock \<Rightarrow> 4 | W_Wake \<Rightarrow> 4 | W_Write _ \<Rightarrow> 4
      | W_Block \<Rightarrow> 0 | W_Waiting \<Rightarrow> 0)"

lemma drain_step:
  assumes "\<not> running s" and "worker s \<notin> {W_Block, W_Waiting, W_Done}"
  shows "\<exists>t. worker_step s = Some t \<and> \<not> running t \<and> worker t \<notin> {W_Block, W_Waiting} \<and>
    drain_measure t < drain_measure s"
  using assms
  by (cases "worker s") (auto simp: worker_step_def drain_measure_def split: list.splits)

lemma drain:
  assumes "\<not> running s" and "worker s \<notin> {W_Block, W_Waiting}"
  shows "worker (worker_run (drain_measure s) s) = W_Done"
proof -
  have "drain_measure s \<le> n \<Longrightarrow> worker (worker_run n s) = W_Done" for n
    using assms
  proof (induction n arbitrary: s)
    case 0
    then show ?case by (cases "worker s") (auto simp: drain_measure_def split: if_splits)
  next
    case (Suc n)
    show ?case
    proof (cases "worker s = W_Done")
      case True
      then show ?thesis by (simp add: worker_step_def)
    next
      case False
      with Suc.prems drain_step [of s] obtain t where
        t: "worker_step s = Some t" "\<not> running t" "worker t \<notin> {W_Block, W_Waiting}"
          "drain_measure t < drain_measure s" by auto
      with Suc.prems Suc.IH [of t] show ?thesis by simp
    qed
  qed
  then show ?thesis by simp
qed

section \<open>Properties\<close>

text \<open>
  C21: in every reachable state of the logger, what \<open>log\<close> has queued is, in this order, what the worker
  has finished with, the message it is writing, and what is still queued: nothing is lost, duplicated
  or reordered; and with a log file that could be opened, the lines of the file are exactly what the
  worker has finished with.
\<close>

theorem log_fifo:
  assumes "running svc" and "log_reach (log_start svc) s"
  shows "pushed s = handled s @ in_flight (worker s) @ messageQueue s \<and>
    (logFile svc \<noteq> None \<longrightarrow> file_lines s = handled s)"
  using log_reach_inv [OF assms(2,1)] by (simp add: log_inv_def)

definition idle_service :: "string option \<Rightarrow> log_service" where
  "idle_service f = \<lparr>currentLevel = DEBUG, running = True, messageQueue = [], logFile = f,
     currentLogDate = ''2024-03-28''\<rparr>"

text \<open>A run for the witnesses: one message is queued and announced, and the worker pops it.\<close>

definition one_message :: log_run where
  "one_message = worker_run 4 ((log_push ''m'' (log_start (idle_service (Some ''f''))))\<lparr>pending_notify := 0\<rparr>)"

lemma one_message_reach: "log_reach (log_start (idle_service (Some ''f''))) one_message"
proof -
  let ?s0 = "log_start (idle_service (Some ''f''))"
  have "log_step ?s0 (log_push ''m'' ?s0)"
    by (rule log_step.push) (simp_all add: log_start_def log_service.defs)
  then have p: "log_reach ?s0 (log_push ''m'' ?s0)"
    by (rule log_reach.step [OF log_reach.start])
  have "log_step (log_push ''m'' ?s0) ((notify_one (log_push ''m'' ?s0))\<lparr>pending_notify := 0\<rparr>)"
    by (rule log_step.notify) (simp add: log_push_def log_start_def log_service.defs)
  then have "log_reach ?s0 ((log_push ''m'' ?s0)\<lparr>pending_notify := 0\<rparr>)"
    using p by (auto intro: log_reach.step simp: notify_one_def log_push_def push_message_def log_start_def log_service.defs)
  then show ?thesis unfolding one_message_def by (rule worker_run_reach)
qed

lemma one_message_state:
  "worker one_message = W_Write ''m'' \<and> messageQueue one_message = [] \<and> running one_message \<and>
   dtor one_message = D_Alive \<and> pending_notify one_message = 0 \<and> pushed one_message = [''m'']"
  by (simp add: one_message_def eval_nat_numeral worker_step_def log_push_def push_message_def
      log_start_def log_service.defs idle_service_def)

theorem log_fifo_witness:
  "pushed one_message = handled one_message @ [''m''] \<and> file_lines one_message = handled one_message"
  using log_fifo [OF _ one_message_reach] one_message_state by (simp add: idle_service_def)

text \<open>
  C33: no message is left lying: whenever the worker sleeps although a message is queued, the thread
  that queued it has still to call \<open>notify_one\<close>, and that call wakes the worker.
\<close>

theorem log_no_stranded_message:
  assumes "running svc" and "log_reach (log_start svc) s"
    and "worker s = W_Waiting" and "messageQueue s \<noteq> []"
  shows "\<exists>n. pending_notify s = Suc n \<and> log_step s (s\<lparr>worker := W_Wake, pending_notify := n\<rparr>)"
proof -
  from log_reach_inv [OF assms(2,1)] assms(3,4) obtain n where n: "pending_notify s = Suc n"
    by (auto simp: log_inv_def gr0_conv_Suc)
  from log_step.notify [OF this] assms(3) n show ?thesis by (simp add: notify_one_def)
qed

definition pushed_while_asleep :: log_run where
  "pushed_while_asleep = log_push ''m'' (worker_run 4 (log_start (idle_service None)))"

lemma pushed_while_asleep_reach: "log_reach (log_start (idle_service None)) pushed_while_asleep"
  unfolding pushed_while_asleep_def
  by (rule log_reach.step [OF worker_run_reach [OF log_reach.start]], rule log_step.push)
     (simp_all add: eval_nat_numeral worker_step_def log_start_def log_service.defs idle_service_def)

theorem log_no_stranded_message_witness:
  "\<exists>n. pending_notify pushed_while_asleep = Suc n \<and>
     log_step pushed_while_asleep (pushed_while_asleep\<lparr>worker := W_Wake, pending_notify := n\<rparr>)"
  by (rule log_no_stranded_message [OF _ pushed_while_asleep_reach])
     (simp_all add: pushed_while_asleep_def eval_nat_numeral worker_step_def log_push_def push_message_def
       log_start_def log_service.defs idle_service_def)

text \<open>
  C34: shutdown with a worker that is awake ends: once \<open>running\<close> is false and the worker neither sleeps
  nor is about to, the worker by itself reaches the end of its function in at most
  \<open>drain_measure\<close> steps, and then every message ever queued is a line of the log file, in order.
\<close>

theorem log_shutdown_drains:
  assumes "running svc" and "logFile svc \<noteq> None" and "log_reach (log_start svc) s"
    and "\<not> running s" and "worker s \<notin> {W_Block, W_Waiting}"
  shows "worker (worker_run (drain_measure s) s) = W_Done \<and>
    file_lines (worker_run (drain_measure s) s) = pushed s"
proof -
  let ?t = "worker_run (drain_measure s) s"
  have fin: "worker ?t = W_Done" by (rule drain [OF assms(4,5)])
  have "log_inv (logFile svc) ?t"
    by (rule log_reach_inv [OF worker_run_reach [OF assms(3)] assms(1)])
  with fin assms(2) show ?thesis
    using worker_run_frame [of "drain_measure s" s] by (simp add: log_inv_def)
qed

lemma one_message_stopped:
  "log_reach (log_start (idle_service (Some ''f''))) (dtor_stop one_message)"
  by (rule log_reach.step [OF one_message_reach], rule log_step.stop) (simp_all add: one_message_state)

theorem log_shutdown_drains_witness:
  "worker (worker_run (drain_measure (dtor_stop one_message)) (dtor_stop one_message)) = W_Done \<and>
   file_lines (worker_run (drain_measure (dtor_stop one_message)) (dtor_stop one_message)) = [''m'']"
  using log_shutdown_drains [OF _ _ one_message_stopped] one_message_state
  by (simp add: idle_service_def dtor_stop_def)

text \<open>
  C35: shutdown can also hang. The destructor sets \<open>running\<close> and notifies without the mutex, so both can
  happen after the worker has found the predicate of \<open>wait\<close> false and before it sleeps; the
  notification is lost, the worker sleeps for ever and \<open>worker.join()\<close> never returns: from every
  start with an empty queue a state is reachable in which the destructor waits and no thread can move,
  unless the platform happens to wake the worker for no reason.
\<close>

theorem log_shutdown_lost_wakeup:
  "\<exists>s. log_reach (log_start \<lparr>currentLevel = l, running = True, messageQueue = [], logFile = f,
          currentLogDate = d\<rparr>) s \<and>
       dtor s = D_Notified \<and> \<not> running s \<and> worker s = W_Waiting \<and> {t. log_step s t} = {s\<lparr>worker := W_Wake\<rparr>}"
proof -
  define s0 where "s0 = log_start \<lparr>currentLevel = l, running = True, messageQueue = [], logFile = f,
          currentLogDate = d\<rparr>"
  define s3 where "s3 = worker_run 3 s0"
  define s5 where "s5 = dtor_notify (dtor_stop s3)"
  define s6 where "s6 = worker_run 1 s5"
  note defs = s0_def s3_def s5_def s6_def eval_nat_numeral worker_step_def log_step_defs log_start_def
    log_service.defs
  have "log_reach s0 s3" unfolding s3_def by (rule worker_run_reach [OF log_reach.start])
  moreover have "log_step s3 (dtor_stop s3)" by (rule log_step.stop) (simp_all add: defs)
  moreover have "log_step (dtor_stop s3) s5"
    unfolding s5_def by (rule log_step.stop_notify) (simp add: dtor_stop_def)
  ultimately have "log_reach s0 s6"
    unfolding s6_def by (meson log_reach.step worker_run_reach)
  moreover have "dtor s6 = D_Notified \<and> \<not> running s6 \<and> worker s6 = W_Waiting \<and> pending_notify s6 = 0"
    by (simp add: defs)
  moreover from this have "{t. log_step s6 t} = {s6\<lparr>worker := W_Wake\<rparr>}"
    by (auto simp: log_step_iff worker_step_def)
  ultimately show ?thesis unfolding s0_def by blast
qed

end
