(* ===== verification/Results.thy ===== *)
theory Results
  imports Externals
begin

text \<open>
  The values the layers of the application hand to each other: \<open>OperationResult\<close>
  (\<^verbatim>\<open>app/Entities/OperationResult.h\<close>), \<open>User\<close> (\<^verbatim>\<open>app/Entities/User.h\<close>), \<open>UserDto\<close> and \<open>ResponseDto\<close>
  (\<^verbatim>\<open>app/Dtos\<close>). A value-initialised \<open>T()\<close> is \<open>default\<close> of the class of that name in \<open>HOL\<close>.
\<close>

section \<open>OperationResult\<close>

datatype OperationStatus = Success | Failure

record 'a operation_result =
  or_status :: OperationStatus
  or_result :: 'a
  or_errorMessage :: string

definition OperationResult :: "OperationStatus \<Rightarrow> 'a \<Rightarrow> string \<Rightarrow> 'a operation_result" where
  "OperationResult status result errorMessage =
     \<lparr>or_status = status, or_result = result, or_errorMessage = errorMessage\<rparr>"

definition SuccessResult :: "'a \<Rightarrow> 'a operation_result" where
  "SuccessResult result = OperationResult Success result ''''"

definition FailureResult :: "string \<Rightarrow> 'a::default operation_result" where
  "FailureResult errorMessage = OperationResult Failure default errorMessage"

definition IsSuccess :: "'a operation_result \<Rightarrow> bool" where
  "IsSuccess r \<longleftrightarrow> or_status r = Success"

definition GetResult :: "'a operation_result \<Rightarrow> exn + 'a" where
  "GetResult r =
     (if \<not> IsSuccess r then Inl (Logic_error ''Attempted to access result of a failed operation.'')
      else Inr (or_result r))"

definition GetErrorMessage :: "'a operation_result \<Rightarrow> exn + string" where
  "GetErrorMessage r =
     (if IsSuccess r then Inl (Logic_error ''Attempted to access error message of a successful operation.'')
      else Inr (or_errorMessage r))"

lemma IsSuccess_simps [simp]: "IsSuccess (SuccessResult x)" "\<not> IsSuccess (FailureResult m)"
  by (simp_all add: IsSuccess_def SuccessResult_def FailureResult_def OperationResult_def)

lemma GetResult_simps [simp]:
  "GetResult (SuccessResult x) = Inr x"
  "GetResult (FailureResult m) = Inl (Logic_error ''Attempted to access result of a failed operation.'')"
  by (simp_all add: GetResult_def) (simp add: SuccessResult_def OperationResult_def)

lemma GetErrorMessage_simps [simp]:
  "GetErrorMessage (SuccessResult x) =
     Inl (Logic_error ''Attempted to access error message of a successful operation.'')"
  "GetErrorMessage (FailureResult m) = Inr m"
  by (simp_all add: GetErrorMessage_def) (simp add: FailureResult_def OperationResult_def)

lemma result_distinct [simp]: "SuccessResult x \<noteq> FailureResult m" "FailureResult m \<noteq> SuccessResult x"
  by (metis IsSuccess_simps)+

lemma result_inject [simp]: "SuccessResult x = SuccessResult y \<longleftrightarrow> x = y"
  "FailureResult m = FailureResult n \<longleftrightarrow> m = n"
  by (auto simp: SuccessResult_def FailureResult_def OperationResult_def)

text \<open>
  A result is \<open>built\<close> when it comes from one of the two factories; all of the program's results do.
\<close>

definition built :: "'a::default operation_result \<Rightarrow> bool" where
  "built r \<longleftrightarrow> (\<exists>x. r = SuccessResult x) \<or> (\<exists>m. r = FailureResult m)"

lemma built_simps [simp]: "built (SuccessResult x)" "built (FailureResult m)"
  by (auto simp: built_def)

lemma built_cases:
  assumes "built r"
  obtains x where "r = SuccessResult x" | m where "r = FailureResult m"
  using assms by (auto simp: built_def)

section \<open>User\<close>

record user =
  u_id :: int
  u_username :: string
  u_passwordHash :: string
  u_salt :: string

definition User :: "string \<Rightarrow> string \<Rightarrow> string \<Rightarrow> user" where
  "User username passwordHash salt =
     \<lparr>u_id = 0, u_username = username, u_passwordHash = passwordHash, u_salt = salt\<rparr>"

definition getId :: "user \<Rightarrow> int" where
  "getId u = u_id u"

definition getUsername :: "user \<Rightarrow> string" where
  "getUsername u = u_username u"

definition getPasswordHash :: "user \<Rightarrow> string" where
  "getPasswordHash u = u_passwordHash u"

definition getSalt :: "user \<Rightarrow> string" where
  "getSalt u = u_salt u"

lemmas user_getters [simp] = getId_def getUsername_def getPasswordHash_def getSalt_def

lemma User_fields [simp]:
  "u_id (User n h t) = 0" "u_username (User n h t) = n" "u_passwordHash (User n h t) = h" "u_salt (User n h t) = t"
  by (simp_all add: User_def)

section \<open>Value-initialised results\<close>

instantiation bool :: default
begin

definition default_bool :: bool where
  "default_bool = False"

instance ..

end

instantiation option :: (type) default
begin

definition default_option :: "'a option" where
  "default_option = None"

instance ..

end

instantiation list :: (type) default
begin

definition default_list :: "'a list" where
  "default_list = []"

instance ..

end

instantiation user_ext :: (default) default
begin

definition default_user_ext :: "'a user_ext" where
  "default_user_ext = user.extend (User [] [] []) default"

instance ..

end

section \<open>Data transfer objects\<close>

record user_dto =
  dto_username :: string
  dto_token :: string

definition UserDto_toJson :: "('j, 'd) lib \<Rightarrow> user_dto \<Rightarrow> 'j" where
  "UserDto_toJson L d =
     (let j = json_null L;
          j = json_put L j ''username'' (json_string L (dto_username d));
          j = json_put L j ''token'' (json_string L (dto_token d))
      in j)"

record 'a response_dto =
  isSuccess :: bool
  dto_result :: "'a option"
  errorMessage :: "string option"

definition ResponseDto_Success :: "'a \<Rightarrow> 'a response_dto" where
  "ResponseDto_Success data = \<lparr>isSuccess = True, dto_result = Some data, errorMessage = None\<rparr>"

definition ResponseDto_Failure :: "string \<Rightarrow> 'a response_dto" where
  "ResponseDto_Failure message = \<lparr>isSuccess = False, dto_result = None, errorMessage = Some message\<rparr>"

text \<open>\<open>toJson\<close> of the template: \<open>result.value().toJson()\<close> is the parameter \<open>to_j\<close>.\<close>

definition ResponseDto_toJson :: "('j, 'd) lib \<Rightarrow> ('a \<Rightarrow> 'j) \<Rightarrow> 'a response_dto \<Rightarrow> 'j" where
  "ResponseDto_toJson L to_j r =
     (let j = json_null L;
          j = json_put L j ''isSuccess'' (json_bool L (isSuccess r));
          j = (case dto_result r of Some v \<Rightarrow> json_put L j ''result'' (to_j v) | None \<Rightarrow> j);
          j = (case errorMessage r of Some m \<Rightarrow> json_put L j ''errorMessage'' (json_string L m) | None \<Rightarrow> j)
      in j)"

lemma ResponseDto_simps [simp]:
  "isSuccess (ResponseDto_Success d)" "\<not> isSuccess (ResponseDto_Failure m)"
  "dto_result (ResponseDto_Success d) = Some d" "dto_result (ResponseDto_Failure m) = None"
  "errorMessage (ResponseDto_Success d) = None" "errorMessage (ResponseDto_Failure m) = Some m"
  by (simp_all add: ResponseDto_Success_def ResponseDto_Failure_def)

lemma ResponseDto_inject [simp]:
  "ResponseDto_Success a = ResponseDto_Success b \<longleftrightarrow> a = b"
  "ResponseDto_Failure m = ResponseDto_Failure n \<longleftrightarrow> m = n"
  "ResponseDto_Success a \<noteq> ResponseDto_Failure n" "ResponseDto_Failure n \<noteq> ResponseDto_Success a"
  by (simp_all add: ResponseDto_Success_def ResponseDto_Failure_def)

text \<open>Reading a serialised object back, with the member laws of the JSON library.\<close>

lemma UserDto_roundtrip:
  assumes "json_laws L"
  shows "json_at_string L (UserDto_toJson L d) ''username'' = Inr (dto_username d)"
    and "json_at_string L (UserDto_toJson L d) ''token'' = Inr (dto_token d)"
  using assms by (simp_all add: json_laws_def UserDto_toJson_def)

lemma ResponseDto_error_roundtrip:
  assumes "json_laws L"
  shows "json_at_string L (ResponseDto_toJson L to_j (ResponseDto_Failure m)) ''errorMessage'' = Inr m"
  using assms by (simp add: json_laws_def ResponseDto_toJson_def)

end
