(* ===== verification/Database.thy ===== *)
theory Database
  imports LogService Results
begin

text \<open>
  The database as the repositories see it: the table \<open>"User"\<close> of \<^verbatim>\<open>app/Entities/odb/User.sql\<close>, the SQL
  statements of \<^verbatim>\<open>app/Entities/odb/User-odb.cxx\<close> on it, and transactions (\<open>db->begin()\<close>,
  \<open>odb::transaction\<close> with the rollback in its destructor, \<open>commit\<close>).

  Every exchange with the server may fail. What happens is an input of the model: \<open>db_faults\<close> lists,
  in order, the outcome of the exchanges to come (\<open>No_fault\<close> when the list has run out). \<open>Fault e\<close>: the
  exchange throws \<open>e\<close> and has no effect; \<open>Fault_after e\<close>: the server did the work, and the reply was
  lost, which matters for a commit.
\<close>

section \<open>State\<close>

datatype fault = No_fault | Fault exn | Fault_after exn

text \<open>
  \<open>db_rows\<close> is the committed table in the order a scan returns its rows, \<open>db_seq\<close> the next value of the
  sequence behind the \<open>SERIAL\<close> column \<open>id\<close> (a sequence is not rolled back), \<open>db_tx\<close> the table as the open
  transaction of this thread sees it. A transaction runs as one step; the interleaving of
  transactions of several threads is modelled where it matters (\<open>UserRepository\<close>).
\<close>

record dbsys = sys +
  db_rows :: "user list"
  db_seq :: int
  db_tx :: "user list option"
  db_faults :: "fault list"

section \<open>Transactions\<close>

definition next_fault :: "('a dbsys_scheme, fault) prog" where
  "next_fault = (\<lambda>s. case db_faults s of
      [] \<Rightarrow> (Inr No_fault, s)
    | f # fs \<Rightarrow> (Inr f, s\<lparr>db_faults := fs\<rparr>))"

text \<open>An exchange whose effect is lost with the transaction if it fails.\<close>

definition exchange :: "('a dbsys_scheme, unit) prog" where
  "exchange = seq next_fault (\<lambda>f. case f of No_fault \<Rightarrow> ret () | Fault e \<Rightarrow> throw e | Fault_after e \<Rightarrow> throw e)"

definition db_begin :: "('a dbsys_scheme, unit) prog" where
  "db_begin = seq exchange (\<lambda>_. seq (get db_tx) (\<lambda>tx.
     case tx of
       Some _ \<Rightarrow> throw (Odb_exception ''transaction already in progress in this thread'')
     | None \<Rightarrow> modify (\<lambda>s. s\<lparr>db_tx := Some (db_rows s)\<rparr>)))"

definition commit :: "('a dbsys_scheme, unit) prog" where
  "commit = seq next_fault (\<lambda>f. seq (get db_tx) (\<lambda>tx.
     case tx of
       None \<Rightarrow> throw (Odb_exception ''transaction already finalized'')
     | Some rows \<Rightarrow>
         (case f of
            No_fault \<Rightarrow> modify (\<lambda>s. s\<lparr>db_rows := rows, db_tx := None\<rparr>)
          | Fault e \<Rightarrow> seq (modify (\<lambda>s. s\<lparr>db_tx := None\<rparr>)) (\<lambda>_. throw e)
          | Fault_after e \<Rightarrow> seq (modify (\<lambda>s. s\<lparr>db_rows := rows, db_tx := None\<rparr>)) (\<lambda>_. throw e))))"

text \<open>
  \<open>odb::transaction t(db->begin()); body\<close>: at the end of the scope, by a return or by an exception,
  the destructor of \<open>t\<close> rolls back what has not been committed.
\<close>

definition at_exit :: "('s, 'a) prog \<Rightarrow> ('s \<Rightarrow> 's) \<Rightarrow> ('s, 'a) prog" where
  "at_exit m d = (\<lambda>s. case m s of (r, t) \<Rightarrow> (r, d t))"

definition transaction :: "('a dbsys_scheme, 'b) prog \<Rightarrow> ('a dbsys_scheme, 'b) prog" where
  "transaction body = seq db_begin (\<lambda>_. at_exit body (\<lambda>s. s\<lparr>db_tx := None\<rparr>))"

section \<open>Statements\<close>

text \<open>\<open>transaction::current()\<close>: the table the statement works on.\<close>

definition current_table :: "('a dbsys_scheme, user list) prog" where
  "current_table = seq (get db_tx) (\<lambda>tx. case tx of
      None \<Rightarrow> throw (Odb_exception ''operation can only be performed in transaction'')
    | Some rows \<Rightarrow> ret rows)"

definition set_table :: "user list \<Rightarrow> ('a dbsys_scheme, unit) prog" where
  "set_table rows = modify (\<lambda>s. s\<lparr>db_tx := Some rows\<rparr>)"

text \<open>The column \<open>"id" SERIAL\<close> is a 32-bit integer with a sequence that does not cycle.\<close>

definition max_serial :: int where
  "max_serial = 2147483647"

text \<open>
  \<open>INSERT INTO "User" ("id", ...) VALUES (DEFAULT, $1, $2, $3) RETURNING "id"\<close>: draws an id from the
  sequence. \<open>None\<close> is the violation of the primary key, for which \<open>execute\<close> returns false.
\<close>

definition sql_insert :: "user \<Rightarrow> ('a dbsys_scheme, int option) prog" where
  "sql_insert u =
     seq exchange (\<lambda>_. seq current_table (\<lambda>rows. seq (get db_seq) (\<lambda>i.
     if i > max_serial then throw (Odb_exception ''nextval: reached maximum value of sequence'')
     else seq (modify (\<lambda>s. s\<lparr>db_seq := i + 1\<rparr>)) (\<lambda>_.
          if i \<in> set (map u_id rows) then ret None
          else seq (set_table (rows @ [u\<lparr>u_id := i\<rparr>])) (\<lambda>_. ret (Some i))))))"

text \<open>\<open>UPDATE "User" SET "username"=$1, "passwordHash"=$2, "salt"=$3 WHERE "id"=$4\<close>, the row count.\<close>

definition sql_update :: "user \<Rightarrow> ('a dbsys_scheme, nat) prog" where
  "sql_update u =
     seq exchange (\<lambda>_. seq current_table (\<lambda>rows.
     seq (set_table (map (\<lambda>r. if u_id r = u_id u
            then r\<lparr>u_username := u_username u, u_passwordHash := u_passwordHash u, u_salt := u_salt u\<rparr>
            else r) rows)) (\<lambda>_.
     ret (length (filter (\<lambda>r. u_id r = u_id u) rows)))))"

text \<open>\<open>DELETE FROM "User"\<close> with a \<open>WHERE\<close> clause given as a predicate on rows, the row count.\<close>

definition sql_delete :: "(user \<Rightarrow> bool) \<Rightarrow> ('a dbsys_scheme, nat) prog" where
  "sql_delete q =
     seq exchange (\<lambda>_. seq current_table (\<lambda>rows.
     seq (set_table (filter (\<lambda>r. \<not> q r) rows)) (\<lambda>_.
     ret (length (filter q rows)))))"

text \<open>\<open>SELECT ... FROM "User"\<close> with a \<open>WHERE\<close> clause given as a predicate on rows.\<close>

definition sql_select :: "(user \<Rightarrow> bool) \<Rightarrow> ('a dbsys_scheme, user list) prog" where
  "sql_select q = seq exchange (\<lambda>_. seq current_table (\<lambda>rows. ret (filter q rows)))"

section \<open>Object operations\<close>

text \<open>\<open>persist\<close>: the object comes back with the id the server has given it.\<close>

definition db_persist :: "user \<Rightarrow> ('a dbsys_scheme, user) prog" where
  "db_persist obj = seq (sql_insert obj) (\<lambda>i. case i of
      None \<Rightarrow> throw (Odb_exception ''object already persistent'')
    | Some i \<Rightarrow> ret (obj\<lparr>u_id := i\<rparr>))"

definition db_update :: "user \<Rightarrow> ('a dbsys_scheme, unit) prog" where
  "db_update obj = seq (sql_update obj) (\<lambda>n.
     if n = 0 then throw (Odb_exception ''object not persistent'') else ret ())"

definition db_erase :: "int \<Rightarrow> ('a dbsys_scheme, unit) prog" where
  "db_erase i = seq (sql_delete (\<lambda>r. u_id r = i)) (\<lambda>n.
     if n \<noteq> 1 then throw (Odb_exception ''object not persistent'') else ret ())"

text \<open>\<open>find\<close> returns the object or a null pointer; \<open>load\<close> throws for a null pointer.\<close>

definition db_find :: "int \<Rightarrow> ('a dbsys_scheme, user option) prog" where
  "db_find i = seq (sql_select (\<lambda>r. u_id r = i)) (\<lambda>rs. case rs of [] \<Rightarrow> ret None | r # _ \<Rightarrow> ret (Some r))"

definition db_load :: "int \<Rightarrow> ('a dbsys_scheme, user) prog" where
  "db_load i = seq (db_find i) (\<lambda>p. case p of
      None \<Rightarrow> throw (Odb_exception ''object not persistent'')
    | Some u \<Rightarrow> ret u)"

definition db_query :: "(user \<Rightarrow> bool) \<Rightarrow> ('a dbsys_scheme, user list) prog" where
  "db_query q = sql_select q"

section \<open>Rules\<close>

lemma wp_next_fault [wp_rules]:
  "wp next_fault Q s = (case db_faults s of [] \<Rightarrow> Q (Inr No_fault) s | f # fs \<Rightarrow> Q (Inr f) (s\<lparr>db_faults := fs\<rparr>))"
  by (simp add: wp_def next_fault_def split: list.split)

lemma wp_at_exit [wp_rules]: "wp (at_exit m d) Q s = wp m (\<lambda>r t. Q r (d t)) s"
  by (auto simp: wp_def at_exit_def split: prod.split)

lemma wp_option [wp_rules]:
  "wp (case x of None \<Rightarrow> m | Some y \<Rightarrow> n y) Q s = (case x of None \<Rightarrow> wp m Q s | Some y \<Rightarrow> wp (n y) Q s)"
  by (cases x) simp_all

lemma wp_list [wp_rules]:
  "wp (case x of [] \<Rightarrow> m | y # ys \<Rightarrow> n y ys) Q s = (case x of [] \<Rightarrow> wp m Q s | y # ys \<Rightarrow> wp (n y ys) Q s)"
  by (cases x) simp_all

lemma wp_fault [wp_rules]:
  "wp (case f of No_fault \<Rightarrow> m | Fault e \<Rightarrow> n e | Fault_after e \<Rightarrow> k e) Q s =
     (case f of No_fault \<Rightarrow> wp m Q s | Fault e \<Rightarrow> wp (n e) Q s | Fault_after e \<Rightarrow> wp (k e) Q s)"
  by (cases f) simp_all

lemmas db_defs = exchange_def db_begin_def commit_def transaction_def current_table_def set_table_def
  sql_insert_def sql_update_def sql_delete_def sql_select_def db_persist_def db_update_def db_erase_def
  db_find_def db_load_def db_query_def

text \<open>The faults a run may meet are exceptions that a handler for \<open>std::exception\<close> sees.\<close>

fun fault_std :: "fault \<Rightarrow> bool" where
  "fault_std No_fault = True"
| "fault_std (Fault e) = is_std e"
| "fault_std (Fault_after e) = is_std e"

definition faults_std :: "'a dbsys_scheme \<Rightarrow> bool" where
  "faults_std s \<longleftrightarrow> list_all fault_std (db_faults s)"

text \<open>No exchange to come fails.\<close>

definition faultless :: "'a dbsys_scheme \<Rightarrow> bool" where
  "faultless s \<longleftrightarrow> list_all (\<lambda>f. f = No_fault) (db_faults s)"

lemma preserves_fault_case [preserves_rules]:
  "preserves I m \<Longrightarrow> (\<And>e. preserves I (n e)) \<Longrightarrow> (\<And>e. preserves I (k e)) \<Longrightarrow>
   preserves I (case f of No_fault \<Rightarrow> m | Fault e \<Rightarrow> n e | Fault_after e \<Rightarrow> k e)"
  by (cases f) auto

lemma preserves_at_exit:
  "preserves I m \<Longrightarrow> (\<And>s. I s \<Longrightarrow> I (d s)) \<Longrightarrow> preserves I (at_exit m d)"
  by (auto simp: preserves_def at_exit_def split: prod.splits)

text \<open>Exchanges only use up the list of faults, so a run without faults stays one.\<close>

lemma faultless_updates [simp]:
  "faultless (s\<lparr>db_rows := r\<rparr>) = faultless s" "faultless (s\<lparr>db_tx := x\<rparr>) = faultless s"
  "faultless (s\<lparr>db_seq := q\<rparr>) = faultless s" "faultless (s\<lparr>clk_pos := n\<rparr>) = faultless s"
  "faultless (s\<lparr>log_instance := i\<rparr>) = faultless s" "faultless (s\<lparr>log_stderr := e\<rparr>) = faultless s"
  "faultless (s\<lparr>rng_pos := p\<rparr>) = faultless s"
  by (simp_all add: faultless_def)

lemma next_fault_faultless: "preserves faultless next_fault"
  by (rule preserves_wp) (auto simp: wp_rules faultless_def split: list.splits)

lemmas faultless_rules = preserves_rules preserves_LOG preserves_modify preserves_at_exit next_fault_faultless

lemma transaction_faultless: "preserves faultless body \<Longrightarrow> preserves faultless (transaction body)"
  unfolding transaction_def db_begin_def exchange_def by (intro faultless_rules) simp_all

lemma commit_faultless: "preserves faultless commit"
  unfolding commit_def by (intro faultless_rules) simp_all

lemma statements_faultless:
  "preserves faultless (db_persist u)" "preserves faultless (db_query q)"
  unfolding db_persist_def sql_insert_def db_query_def sql_select_def exchange_def current_table_def set_table_def
  by (intro faultless_rules; simp)+

text \<open>
  The table's invariant: no transaction is open between operations, ids are distinct, and the
  sequence is ahead of all of them, which is why a drawn id never violates the primary key.
\<close>

definition table_wf :: "'a dbsys_scheme \<Rightarrow> bool" where
  "table_wf s \<longleftrightarrow> db_tx s = None \<and> distinct (map u_id (db_rows s)) \<and>
     (\<forall>r \<in> set (db_rows s). u_id r < db_seq s)"

lemma distinct_ids_unique:
  "distinct (map u_id rows) \<Longrightarrow> length (filter (\<lambda>r. u_id r = i) rows) \<le> 1"
proof (induction rows)
  case (Cons r rows)
  then show ?case
  proof (cases "u_id r = i")
    case True
    with Cons.prems have "filter (\<lambda>r. u_id r = i) rows = []"
      by (auto simp: filter_empty_conv) (metis imageI)
    with True show ?thesis by simp
  qed simp
qed simp

end
