(* ===== verification/ConcreteLib.thy ===== *)
theory ConcreteLib
  imports LogService
begin

text \<open>
  One concrete instance of the externals, for the witnesses: it shows that the hypotheses the
  properties make about libraries can hold together. It is no model of those libraries: requests are
  written \<open>name:password\<close>, a hash is the password and the salt cut to length, and a token spells its
  times in unary.
\<close>

datatype demo_json = DNull | DBool bool | DInt int | DString string | DObject "(string \<times> demo_json) list"

fun demo_at_string :: "demo_json \<Rightarrow> string \<Rightarrow> exn + string" where
  "demo_at_string (DObject ms) k = (case map_of ms k of
      Some (DString s) \<Rightarrow> Inr s
    | _ \<Rightarrow> Inl (Json_exception ''type_error''))"
| "demo_at_string _ k = Inl (Json_exception ''type_error'')"

fun demo_put :: "demo_json \<Rightarrow> string \<Rightarrow> demo_json \<Rightarrow> demo_json" where
  "demo_put (DObject ms) k v = DObject ((k, v) # ms)"
| "demo_put _ k v = DObject [(k, v)]"

fun demo_dump :: "demo_json \<Rightarrow> string" where
  "demo_dump DNull = ''null''"
| "demo_dump (DBool b) = (if b then ''true'' else ''false'')"
| "demo_dump (DInt i) = ''0''"
| "demo_dump (DString s) = s"
| "demo_dump (DObject ms) = ''{'' @ concat (map (\<lambda>(k, v). k @ '':'' @ demo_dump v @ '','') ms) @ ''}''"

definition demo_parse :: "string \<Rightarrow> exn + demo_json" where
  "demo_parse s =
     (if CHR '':'' \<in> set s
      then Inr (DObject [(''username'', DString (takeWhile (\<lambda>c. c \<noteq> CHR '':'') s)),
                         (''password'', DString (tl (dropWhile (\<lambda>c. c \<noteq> CHR '':'') s)))])
      else Inl (Json_exception ''parse_error''))"

definition demo_argon2 ::
  "32 word \<Rightarrow> 32 word \<Rightarrow> 32 word \<Rightarrow> string \<Rightarrow> u8 list \<Rightarrow> nat \<Rightarrow> int \<times> u8 list" where
  "demo_argon2 t m p pwd salt n = (0, take n (map (\<lambda>c. word_of_nat (of_char c)) pwd @ salt @ replicate n 0))"

definition demo_sign :: "string \<Rightarrow> jwt_claims \<Rightarrow> exn + string" where
  "demo_sign k c = Inr (replicate (jwt_issued_at c) (CHR ''i'') @ ''.'' @
     replicate (jwt_expires_at c) (CHR ''e'') @ ''.'' @ jwt_issuer c)"

definition demo_decode :: "string \<Rightarrow> exn + (nat \<times> nat \<times> string)" where
  "demo_decode t =
     (let a = takeWhile (\<lambda>c. c = CHR ''i'') t;
          t = tl (dropWhile (\<lambda>c. c = CHR ''i'') t);
          b = takeWhile (\<lambda>c. c = CHR ''e'') t;
          t = tl (dropWhile (\<lambda>c. c = CHR ''e'') t)
      in Inr (length a, length b, t))"

definition demo_verify :: "string \<Rightarrow> string \<Rightarrow> nat \<Rightarrow> nat \<times> nat \<times> string \<Rightarrow> exn + unit" where
  "demo_verify k i n d = (case d of (a, b, j) \<Rightarrow>
     if i = j \<and> a \<le> n \<and> n \<le> b then Inr () else Inl (Other_exception ''token verification failed''))"

definition demo_lib :: "(demo_json, nat \<times> nat \<times> string) lib" where
  "demo_lib = \<lparr>
     json_parse = demo_parse, json_at_string = demo_at_string, json_null = DNull, json_put = demo_put,
     json_bool = DBool, json_string = DString, json_int = DInt, json_object = DObject,
     json_dump = (\<lambda>j. Inr (demo_dump j)), json_dump_indent = (\<lambda>n j. Inr (demo_dump j)),
     argon2i_hash_raw = demo_argon2,
     jwt_sign = demo_sign, jwt_decode = demo_decode, jwt_verify = demo_verify,
     env_HOME = Some ''/root'', create_directories = (\<lambda>p. None), open_append = (\<lambda>p. True),
     put_date = (\<lambda>t. ''2024-03-29''), put_datetime = (\<lambda>t. ''2024-03-29 12:00:00''),
     secret_key = ''secret'', project_name = ''ccfolio'', doc_root = ''.'',
     server_address = ''0.0.0.0'', server_port = ''7001''\<rparr>"

lemma demo_lib_simps [simp]:
  "json_parse demo_lib = demo_parse" "json_at_string demo_lib = demo_at_string"
  "json_dump demo_lib = (\<lambda>j. Inr (demo_dump j))" "json_dump_indent demo_lib = (\<lambda>n j. Inr (demo_dump j))"
  "json_put demo_lib = demo_put" "json_string demo_lib = DString" "json_null demo_lib = DNull"
  "json_bool demo_lib = DBool"
  "argon2i_hash_raw demo_lib = demo_argon2" "jwt_sign demo_lib = demo_sign"
  "jwt_decode demo_lib = demo_decode" "jwt_verify demo_lib = demo_verify"
  "env_HOME demo_lib = Some ''/root''" "create_directories demo_lib = (\<lambda>p. None)"
  "secret_key demo_lib = ''secret''" "project_name demo_lib = ''ccfolio''" "server_port demo_lib = ''7001''"
  by (simp_all add: demo_lib_def)

lemma demo_log_total: "log_total demo_lib"
  by (simp add: log_total_def)

lemma demo_json_throws: "json_throws_json demo_lib"
proof -
  have "demo_at_string j k = Inl e \<Longrightarrow> is_json e" for j k e
    by (cases j) (auto split: option.splits demo_json.splits)
  then show ?thesis by (auto simp: json_throws_json_def demo_parse_def split: if_splits)
qed

lemma demo_throws_std: "lib_throws_std demo_lib"
  using demo_json_throws
  by (auto simp: lib_throws_std_def demo_sign_def demo_decode_def demo_verify_def Let_def split: prod.splits if_splits)

lemma demo_json_laws: "json_laws demo_lib"
proof -
  have "demo_at_string (demo_put j k (DString v)) k = Inr v" for j k v
    by (cases j) auto
  moreover have "k \<noteq> k' \<Longrightarrow> demo_at_string (demo_put j k v) k' = demo_at_string j k'" for j k k' v
    by (cases j) auto
  ultimately show ?thesis by (simp add: json_laws_def)
qed

lemma unary:
  "y \<noteq> c \<Longrightarrow> takeWhile (\<lambda>x. x = c) (replicate n c @ y # r) = replicate n c"
  "y \<noteq> c \<Longrightarrow> dropWhile (\<lambda>x. x = c) (replicate n c @ y # r) = y # r"
  by (induction n) auto

lemma demo_decode_sign:
  "demo_sign k c = Inr t \<Longrightarrow> demo_decode t = Inr (jwt_issued_at c, jwt_expires_at c, jwt_issuer c)"
  by (auto simp: demo_sign_def demo_decode_def unary Let_def)

lemma demo_jwt_laws: "jwt_laws demo_lib"
  unfolding jwt_laws_def
  by (auto simp: demo_verify_def dest!: demo_decode_sign)

lemmas demo_lib_facts = demo_log_total demo_throws_std demo_json_laws demo_jwt_laws

end
