(* ===== verification/OdbRepository.thy ===== *)
theory OdbRepository
  imports Database ConcreteLib
begin

text \<open>
  \<^verbatim>\<open>app/Repositories/OdbRepository.h\<close> at \<open>T = User\<close> (its only instance), and the interface it
  implements, \<^verbatim>\<open>app/Interfaces/IRepository.h\<close>, as the locale \<open>repository\<close>: what each of the five
  operations promises of the stored rows, whatever fails underneath.
\<close>

section \<open>The operations\<close>

definition odb_site :: "int \<Rightarrow> string \<Rightarrow> site" where
  "odb_site line fn = (''app/Repositories/OdbRepository.h'', line, fn)"

definition odb_failure :: string where
  "odb_failure = ''Something happened, please try again later.''"

text \<open>
  The two \<open>catch\<close> clauses every operation ends with: \<open>odb::connection_lost\<close> at \<open>line\<close>, then
  \<open>std::exception\<close> five lines below, both logging the message and returning the same failure.
\<close>

definition odb_catch ::
  "('j, 'd) lib \<Rightarrow> int \<Rightarrow> string \<Rightarrow> ('a dbsys_scheme, 'b::default operation_result) prog
     \<Rightarrow> ('a dbsys_scheme, 'b operation_result) prog" where
  "odb_catch L line fn m =
     catch2 m
       is_connection_lost (\<lambda>e. seq (LOG L ERROR (what e) (odb_site line fn)) (\<lambda>_. ret (FailureResult odb_failure)))
       is_std (\<lambda>e. seq (LOG L ERROR (what e) (odb_site (line + 5) fn)) (\<lambda>_. ret (FailureResult odb_failure)))"

text \<open>
  The member \<open>db\<close>, the object operations of an \<open>odb::database\<close> at \<open>T = User\<close>, with the two queries the code
  makes. \<open>load\<close> is \<open>find\<close> with an exception for a null pointer.
\<close>

datatype user_query = Query_all | Query_username string

fun query_holds :: "user_query \<Rightarrow> user \<Rightarrow> bool" where
  "query_holds Query_all u = True"
| "query_holds (Query_username n) u = (u_username u = n)"

record 's object_db =
  od_persist :: "user \<Rightarrow> ('s, user) prog"
  od_find :: "int \<Rightarrow> ('s, user option) prog"
  od_update :: "user \<Rightarrow> ('s, unit) prog"
  od_erase :: "int \<Rightarrow> ('s, unit) prog"
  od_query :: "user_query \<Rightarrow> ('s, user list) prog"

definition od_load :: "('a dbsys_scheme) object_db \<Rightarrow> int \<Rightarrow> ('a dbsys_scheme, user) prog" where
  "od_load db i = seq (od_find db i) (\<lambda>p. case p of
      None \<Rightarrow> throw (Odb_exception ''object not persistent'')
    | Some u \<Rightarrow> ret u)"

definition repo_Create :: "('a dbsys_scheme) object_db \<Rightarrow> ('j, 'd) lib \<Rightarrow> user \<Rightarrow> ('a dbsys_scheme, bool operation_result) prog" where
  "repo_Create db L entity = odb_catch L 55 ''Create''
     (transaction
       (seq (od_persist db entity) (\<lambda>_.
        seq commit (\<lambda>_.
        ret (SuccessResult True)))))"

definition repo_Read :: "('a dbsys_scheme) object_db \<Rightarrow> ('j, 'd) lib \<Rightarrow> int \<Rightarrow> ('a dbsys_scheme, user operation_result) prog" where
  "repo_Read db L i = odb_catch L 82 ''Read''
     (transaction
       (seq (od_load db i) (\<lambda>entity.
        seq commit (\<lambda>_.
        ret (SuccessResult entity)))))"

definition repo_Update :: "('a dbsys_scheme) object_db \<Rightarrow> ('j, 'd) lib \<Rightarrow> user \<Rightarrow> ('a dbsys_scheme, bool operation_result) prog" where
  "repo_Update db L entity = odb_catch L 109 ''Update''
     (transaction
       (seq (od_update db entity) (\<lambda>_.
        seq commit (\<lambda>_.
        ret (SuccessResult True)))))"

definition repo_Delete :: "('a dbsys_scheme) object_db \<Rightarrow> ('j, 'd) lib \<Rightarrow> int \<Rightarrow> ('a dbsys_scheme, bool operation_result) prog" where
  "repo_Delete db L i = odb_catch L 136 ''Delete''
     (transaction
       (seq (od_erase db i) (\<lambda>_.
        seq commit (\<lambda>_.
        ret (SuccessResult True)))))"

text \<open>The loop over the result copies the entities, in order, into the vector.\<close>

definition repo_ReadAll :: "('a dbsys_scheme) object_db \<Rightarrow> ('j, 'd) lib \<Rightarrow> ('a dbsys_scheme, user list operation_result) prog" where
  "repo_ReadAll db L = odb_catch L 167 ''ReadAll''
     (transaction
       (seq (od_query db Query_all) (\<lambda>result.
        (let entities = foldl (\<lambda>es entity. es @ [entity]) [] result in
         seq commit (\<lambda>_.
         ret (SuccessResult entities))))))"

text \<open>
  The repository on the object operations of \<open>Database\<close>, which is what the rest of the development builds
  on. \<open>RepositoryStack\<close> puts it on the generated operations instead and shows that nothing changes.
\<close>

definition table_db :: "('a dbsys_scheme) object_db" where
  "table_db = \<lparr>od_persist = db_persist, od_find = db_find, od_update = db_update, od_erase = db_erase,
     od_query = (\<lambda>q. db_query (query_holds q))\<rparr>"

definition odb_Create :: "('j, 'd) lib \<Rightarrow> user \<Rightarrow> ('a dbsys_scheme, bool operation_result) prog" where
  odb_Create_repo: "odb_Create L = repo_Create table_db L"

definition odb_Read :: "('j, 'd) lib \<Rightarrow> int \<Rightarrow> ('a dbsys_scheme, user operation_result) prog" where
  odb_Read_repo: "odb_Read L = repo_Read table_db L"

definition odb_Update :: "('j, 'd) lib \<Rightarrow> user \<Rightarrow> ('a dbsys_scheme, bool operation_result) prog" where
  odb_Update_repo: "odb_Update L = repo_Update table_db L"

definition odb_Delete :: "('j, 'd) lib \<Rightarrow> int \<Rightarrow> ('a dbsys_scheme, bool operation_result) prog" where
  odb_Delete_repo: "odb_Delete L = repo_Delete table_db L"

definition odb_ReadAll :: "('j, 'd) lib \<Rightarrow> ('a dbsys_scheme, user list operation_result) prog" where
  odb_ReadAll_repo: "odb_ReadAll L = repo_ReadAll table_db L"

lemmas odb_repo = odb_Create_repo odb_Read_repo odb_Update_repo odb_Delete_repo odb_ReadAll_repo

lemma od_load_table: "od_load table_db = db_load"
  by (simp add: fun_eq_iff od_load_def db_load_def table_db_def)

lemma odb_Create_def: "odb_Create L entity = odb_catch L 55 ''Create''
     (transaction (seq (db_persist entity) (\<lambda>_. seq commit (\<lambda>_. ret (SuccessResult True)))))"
  by (simp add: odb_repo repo_Create_def table_db_def)

lemma odb_Read_def: "odb_Read L i = odb_catch L 82 ''Read''
     (transaction (seq (db_load i) (\<lambda>entity. seq commit (\<lambda>_. ret (SuccessResult entity)))))"
  by (simp add: odb_repo repo_Read_def od_load_table)

lemma odb_Update_def: "odb_Update L entity = odb_catch L 109 ''Update''
     (transaction (seq (db_update entity) (\<lambda>_. seq commit (\<lambda>_. ret (SuccessResult True)))))"
  by (simp add: odb_repo repo_Update_def table_db_def)

lemma odb_Delete_def: "odb_Delete L i = odb_catch L 136 ''Delete''
     (transaction (seq (db_erase i) (\<lambda>_. seq commit (\<lambda>_. ret (SuccessResult True)))))"
  by (simp add: odb_repo repo_Delete_def table_db_def)

lemma odb_ReadAll_def: "odb_ReadAll L = odb_catch L 167 ''ReadAll''
     (transaction (seq (db_query (\<lambda>_. True)) (\<lambda>result.
        (let entities = foldl (\<lambda>es entity. es @ [entity]) [] result in
         seq commit (\<lambda>_. ret (SuccessResult entities))))))"
proof -
  have "query_holds Query_all = (\<lambda>_. True)" by (simp add: fun_eq_iff)
  then show ?thesis by (simp add: odb_repo repo_ReadAll_def table_db_def)
qed

lemma foldl_snoc: "foldl (\<lambda>es e. es @ [e]) acc xs = acc @ xs"
  by (induction xs arbitrary: acc) auto

section \<open>The interface\<close>

text \<open>
  A store of entities with identifiers. \<open>rows\<close> is what is stored, \<open>wf\<close> the invariant under which
  the promises hold, \<open>set_id\<close> puts an identifier into an entity, \<open>same\<close> says that two entities agree
  in everything but the identifier. The outcome of an operation may always be an exception (the
  logger can throw); its effect on the rows is bounded in every case, and a success says what
  happened.
\<close>

locale repository =
  fixes create :: "'e \<Rightarrow> ('s, bool operation_result) prog"
    and read :: "int \<Rightarrow> ('s, 'e operation_result) prog"
    and update :: "'e \<Rightarrow> ('s, bool operation_result) prog"
    and delete :: "int \<Rightarrow> ('s, bool operation_result) prog"
    and read_all :: "('s, 'e list operation_result) prog"
    and rows :: "'s \<Rightarrow> 'e list"
    and wf :: "'s \<Rightarrow> bool"
    and ident :: "'e \<Rightarrow> int"
    and set_id :: "int \<Rightarrow> 'e \<Rightarrow> 'e"
  assumes ident_set [simp]: "ident (set_id i e) = i"
    and wf_distinct: "wf s \<Longrightarrow> distinct (map ident (rows s))"
    and create_wf: "wf s \<Longrightarrow> create e s = (out, t) \<Longrightarrow> wf t"
    and create_rows: "wf s \<Longrightarrow> create e s = (out, t) \<Longrightarrow>
          rows t = rows s \<or> (\<exists>i. rows t = rows s @ [set_id i e])"
    and create_success: "wf s \<Longrightarrow> create e s = (Inr r, t) \<Longrightarrow> IsSuccess r \<Longrightarrow>
          \<exists>i. rows t = rows s @ [set_id i e]"
    and read_pure: "wf s \<Longrightarrow> read i s = (oute, t) \<Longrightarrow> wf t \<and> rows t = rows s"
    and read_success: "wf s \<Longrightarrow> read i s = (Inr re, t) \<Longrightarrow> GetResult re = Inr e \<Longrightarrow>
          e \<in> set (rows s) \<and> ident e = i"
    and update_wf: "wf s \<Longrightarrow> update e s = (out, t) \<Longrightarrow> wf t"
    and update_rows: "wf s \<Longrightarrow> update e s = (out, t) \<Longrightarrow>
          rows t = rows s \<or> rows t = map (\<lambda>x. if ident x = ident e then e else x) (rows s)"
    and update_success: "wf s \<Longrightarrow> update e s = (Inr r, t) \<Longrightarrow> IsSuccess r \<Longrightarrow>
          ident e \<in> set (map ident (rows s)) \<and>
          rows t = map (\<lambda>x. if ident x = ident e then e else x) (rows s)"
    and delete_wf: "wf s \<Longrightarrow> delete i s = (out, t) \<Longrightarrow> wf t"
    and delete_rows: "wf s \<Longrightarrow> delete i s = (out, t) \<Longrightarrow>
          rows t = rows s \<or> rows t = filter (\<lambda>x. ident x \<noteq> i) (rows s)"
    and delete_success: "wf s \<Longrightarrow> delete i s = (Inr r, t) \<Longrightarrow> IsSuccess r \<Longrightarrow>
          i \<in> set (map ident (rows s)) \<and> rows t = filter (\<lambda>x. ident x \<noteq> i) (rows s)"
    and read_all_pure: "wf s \<Longrightarrow> read_all s = (outa, t) \<Longrightarrow> wf t \<and> rows t = rows s"
    and read_all_success: "wf s \<Longrightarrow> read_all s = (Inr ra, t) \<Longrightarrow> GetResult ra = Inr es \<Longrightarrow> es = rows s"
begin

text \<open>What was created can be read back under its new identifier, and under no other entity's.\<close>

lemma create_then_read:
  assumes "wf s" and "create e s = (Inr r, t)" and "IsSuccess r"
  shows "\<exists>i. i \<notin> set (map ident (rows s)) \<and>
    (\<forall>r' u e'. read i t = (Inr r', u) \<longrightarrow> GetResult r' = Inr e' \<longrightarrow> e' = set_id i e)"
proof -
  obtain i where i: "rows t = rows s @ [set_id i e]"
    using create_success [OF assms] by blast
  have wt: "wf t" using create_wf assms(1,2) .
  from wf_distinct [OF wt] i have fresh: "i \<notin> set (map ident (rows s))"
    by (auto simp: image_iff)
  moreover have "e' = set_id i e" if "read i t = (Inr r', u)" "GetResult r' = Inr e'" for r' u e'
    using read_success [OF wt that] i fresh by auto
  ultimately show ?thesis by blast
qed

text \<open>After a successful delete no read of that identifier succeeds.\<close>

lemma delete_then_read:
  assumes "wf s" and "delete i s = (Inr r, t)" and "IsSuccess r" and "read i t = (Inr r', u)"
  shows "\<not> IsSuccess r'"
proof
  assume "IsSuccess r'"
  then obtain e where "GetResult r' = Inr e" by (simp add: GetResult_def)
  from read_success [OF delete_wf [OF assms(1,2)] assms(4) this] delete_success [OF assms(1-3)]
  show False by auto
qed

lemma update_then_read:
  assumes "wf s" and "update e s = (Inr r, t)" and "IsSuccess r"
    and "read (ident e) t = (Inr r', u)" and "GetResult r' = Inr e'"
  shows "e' = e"
  using read_success [OF update_wf [OF assms(1,2)] assms(4,5)] update_success [OF assms(1-3)]
  by (auto split: if_splits)

end

section \<open>OdbRepository implements it\<close>

text \<open>
  The common part: an operation on the table inside a transaction, then a commit, then the result.
  \<open>P\<close> relates the table before, the table after and the value the operation passes on.
\<close>

definition table_same :: "'a dbsys_scheme \<Rightarrow> 'a dbsys_scheme \<Rightarrow> bool" where
  "table_same s t \<longleftrightarrow> db_rows t = db_rows s \<and> db_seq s \<le> db_seq t \<and> db_tx t = None"

lemma table_same_wf: "table_wf s \<Longrightarrow> table_same s t \<Longrightarrow> table_wf t"
  by (fastforce simp: table_wf_def table_same_def)

text \<open>
  \<open>op_spec m P\<close>: run on a state with no transaction open, \<open>m\<close> either leaves the table as it was, or
  \<open>P\<close> holds between the states before and after; and it does so when it returns a success,
  whose value \<open>P\<close> sees.
\<close>

definition op_spec ::
  "('a dbsys_scheme, 'b operation_result) prog \<Rightarrow> 'a dbsys_scheme \<Rightarrow> ('b \<Rightarrow> 'a dbsys_scheme \<Rightarrow> bool) \<Rightarrow> bool" where
  "op_spec m s P \<longleftrightarrow> (\<forall>r t. m s = (r, t) \<longrightarrow>
     (table_same s t \<or> (\<exists>x. P x t)) \<and>
     (\<forall>v. r = Inr v \<longrightarrow> IsSuccess v \<longrightarrow> P (or_result v) t))"

lemma op_specI:
  assumes "wp m (\<lambda>r t. (table_same s t \<or> (\<exists>x. P x t)) \<and>
     (\<forall>v. r = Inr v \<longrightarrow> IsSuccess v \<longrightarrow> P (or_result v) t)) s"
  shows "op_spec m s P"
  using assms by (auto simp: op_spec_def wp_def split: prod.splits)

lemma or_result_Success [simp]: "or_result (SuccessResult x) = x"
  by (simp add: SuccessResult_def OperationResult_def)

lemma op_spec_catch:
  assumes body: "wp m (\<lambda>r t. (table_same s t \<or> (\<exists>x. P x t)) \<and>
      (\<forall>v. r = Inr v \<longrightarrow> IsSuccess v \<longrightarrow> P (or_result v) t)) s"
    and closed: "\<And>x t n i e. P x t \<Longrightarrow> P x (t\<lparr>clk_pos := n, log_instance := i, log_stderr := e\<rparr>)"
  shows "op_spec (odb_catch L line fn m) s P"
proof (rule op_specI)
  show "wp (odb_catch L line fn m) (\<lambda>r t. (table_same s t \<or> (\<exists>x. P x t)) \<and>
      (\<forall>v. r = Inr v \<longrightarrow> IsSuccess v \<longrightarrow> P (or_result v) t)) s"
    unfolding odb_catch_def catch2_def wp_catch
  proof (rule wp_conseq [OF body], goal_cases)
    case (1 r t)
    show ?case
    proof (cases r)
      case (Inl e)
      with 1 show ?thesis
        by (auto simp: wp_rules table_same_def intro!: wp_LOG split: sum.split) (blast dest: closed)+
    next
      case (Inr v)
      with 1 show ?thesis by auto
    qed
  qed
qed

text \<open>The five bodies.\<close>

lemma updated_row:
  "(if u_id r = u_id e then r\<lparr>u_username := u_username e, u_passwordHash := u_passwordHash e, u_salt := u_salt e\<rparr>
    else r) = (if u_id r = u_id e then e else (r :: user))"
  by (cases r; cases e) simp

lemma updated_ids: "map u_id (map (\<lambda>x. if u_id x = u_id e then e else x) rs) = map u_id rs"
  by simp

lemma filter_ConsD: "filter q rs = r # rs' \<Longrightarrow> r \<in> set rs \<and> q r"
  by (drule arg_cong [where f = set]) auto

lemma one_filtered: "length (filter (\<lambda>r. u_id r = i) rs) = Suc 0 \<Longrightarrow> \<exists>r \<in> set rs. u_id r = i"
  by (induction rs) (auto split: if_splits)

lemmas body_simps = db_defs wp_rules table_same_def foldl_snoc

lemma create_spec:
  assumes "db_tx s = None"
  shows "op_spec (odb_Create L e) s (\<lambda>_ t. db_tx t = None \<and> db_seq t = db_seq s + 1 \<and>
    db_rows t = db_rows s @ [e\<lparr>u_id := db_seq s\<rparr>])"
  unfolding odb_Create_def
  by (rule op_spec_catch)
     (use assms in \<open>auto simp: body_simps split: list.splits fault.splits option.splits\<close>)

lemma read_spec:
  assumes "db_tx s = None"
  shows "op_spec (odb_Read L i) s (\<lambda>e t. table_same s t \<and> e \<in> set (db_rows s) \<and> u_id e = i)"
  unfolding odb_Read_def
  by (rule op_spec_catch)
     (use assms in \<open>auto simp: body_simps dest: filter_ConsD split: list.splits fault.splits option.splits\<close>)

lemma update_spec:
  assumes "db_tx s = None"
  shows "op_spec (odb_Update L e) s (\<lambda>_ t. db_tx t = None \<and> db_seq t = db_seq s \<and>
    (\<exists>r \<in> set (db_rows s). u_id r = u_id e) \<and>
    db_rows t = map (\<lambda>x. if u_id x = u_id e then e else x) (db_rows s))"
  unfolding odb_Update_def
  by (rule op_spec_catch)
     (use assms in \<open>auto simp: body_simps updated_row filter_empty_conv
        split: list.splits fault.splits option.splits\<close>)

lemma delete_spec:
  assumes "db_tx s = None"
  shows "op_spec (odb_Delete L i) s (\<lambda>_ t. db_tx t = None \<and> db_seq t = db_seq s \<and>
    (\<exists>r \<in> set (db_rows s). u_id r = i) \<and> db_rows t = filter (\<lambda>x. u_id x \<noteq> i) (db_rows s))"
  unfolding odb_Delete_def
  by (rule op_spec_catch)
     (use assms in \<open>auto simp: body_simps dest: one_filtered split: list.splits fault.splits option.splits\<close>)

lemma read_all_spec:
  assumes "db_tx s = None"
  shows "op_spec (odb_ReadAll L) s (\<lambda>es t. table_same s t \<and> es = db_rows s)"
  unfolding odb_ReadAll_def
  by (rule op_spec_catch)
     (use assms in \<open>auto simp: body_simps split: list.splits fault.splits option.splits\<close>)

text \<open>The laws of the interface, from these specifications.\<close>

lemma op_specD:
  assumes "op_spec m s P" and "m s = (r, t)"
  shows "table_same s t \<or> (\<exists>x. P x t)" and "r = Inr v \<Longrightarrow> IsSuccess v \<Longrightarrow> P (or_result v) t"
  using assms by (auto simp: op_spec_def)

lemma GetResult_SuccessD: "GetResult r = Inr x \<Longrightarrow> IsSuccess r \<and> or_result r = x"
  by (auto simp: GetResult_def split: if_splits)

lemma table_wf_tx: "table_wf s \<Longrightarrow> db_tx s = None"
  by (simp add: table_wf_def)

text \<open>The laws, operation by operation.\<close>

lemma create_laws:
  assumes "table_wf s" and "odb_Create L e s = (out, t)"
  shows "table_wf t" and "db_rows t = db_rows s \<or> (\<exists>i. db_rows t = db_rows s @ [e\<lparr>u_id := i\<rparr>])"
    and "out = Inr r \<Longrightarrow> IsSuccess r \<Longrightarrow> \<exists>i. db_rows t = db_rows s @ [e\<lparr>u_id := i\<rparr>]"
proof -
  note spec = create_spec [OF table_wf_tx [OF assms(1)]]
  from op_specD(1) [OF spec assms(2)] assms(1) show "table_wf t" by (force simp: table_same_def table_wf_def)
  from op_specD(1) [OF spec assms(2)] show "db_rows t = db_rows s \<or> (\<exists>i. db_rows t = db_rows s @ [e\<lparr>u_id := i\<rparr>])"
    by (auto simp: table_same_def)
  from op_specD(2) [OF spec assms(2)] show "out = Inr r \<Longrightarrow> IsSuccess r \<Longrightarrow> \<exists>i. db_rows t = db_rows s @ [e\<lparr>u_id := i\<rparr>]" by auto
qed

lemma read_laws:
  assumes "table_wf s" and "odb_Read L i s = (out, t)"
  shows "table_wf t \<and> db_rows t = db_rows s" and "out = Inr r \<Longrightarrow> GetResult r = Inr e \<Longrightarrow> e \<in> set (db_rows s) \<and> u_id e = i"
proof -
  note spec = read_spec [OF table_wf_tx [OF assms(1)]]
  from op_specD(1) [OF spec assms(2)] assms(1) show "table_wf t \<and> db_rows t = db_rows s"
    by (auto simp: table_same_def intro: table_same_wf)
  from op_specD(2) [OF spec assms(2)] show "out = Inr r \<Longrightarrow> GetResult r = Inr e \<Longrightarrow> e \<in> set (db_rows s) \<and> u_id e = i"
    by (auto dest: GetResult_SuccessD)
qed

lemma update_laws:
  assumes "table_wf s" and "odb_Update L e s = (out, t)"
  shows "table_wf t" and "db_rows t = db_rows s \<or> db_rows t = map (\<lambda>x. if u_id x = u_id e then e else x) (db_rows s)"
    and "out = Inr r \<Longrightarrow> IsSuccess r \<Longrightarrow> u_id e \<in> set (map u_id (db_rows s)) \<and>
      db_rows t = map (\<lambda>x. if u_id x = u_id e then e else x) (db_rows s)"
proof -
  note spec = update_spec [OF table_wf_tx [OF assms(1)]]
  consider "table_same s t"
    | "db_tx t = None" "db_seq t = db_seq s" "db_rows t = map (\<lambda>x. if u_id x = u_id e then e else x) (db_rows s)"
    using op_specD(1) [OF spec assms(2)] by auto
  then show "table_wf t"
  proof cases
    case 2
    with assms(1) show ?thesis unfolding table_wf_def 2(3) updated_ids by auto
  qed (rule table_same_wf [OF assms(1)])
  from op_specD(1) [OF spec assms(2)]
  show "db_rows t = db_rows s \<or> db_rows t = map (\<lambda>x. if u_id x = u_id e then e else x) (db_rows s)"
    by (auto simp: table_same_def)
  from op_specD(2) [OF spec assms(2)]
  show "out = Inr r \<Longrightarrow> IsSuccess r \<Longrightarrow> u_id e \<in> set (map u_id (db_rows s)) \<and>
      db_rows t = map (\<lambda>x. if u_id x = u_id e then e else x) (db_rows s)"
    by (auto intro: rev_image_eqI)
qed

lemma delete_laws:
  assumes "table_wf s" and "odb_Delete L i s = (out, t)"
  shows "table_wf t" and "db_rows t = db_rows s \<or> db_rows t = filter (\<lambda>x. u_id x \<noteq> i) (db_rows s)"
    and "out = Inr r \<Longrightarrow> IsSuccess r \<Longrightarrow> i \<in> set (map u_id (db_rows s)) \<and> db_rows t = filter (\<lambda>x. u_id x \<noteq> i) (db_rows s)"
proof -
  note spec = delete_spec [OF table_wf_tx [OF assms(1)]]
  from op_specD(1) [OF spec assms(2)] assms(1) show "table_wf t"
    by (auto simp: table_same_def table_wf_def distinct_map_filter intro: order_less_le_trans)
  from op_specD(1) [OF spec assms(2)] show "db_rows t = db_rows s \<or> db_rows t = filter (\<lambda>x. u_id x \<noteq> i) (db_rows s)"
    by (auto simp: table_same_def)
  from op_specD(2) [OF spec assms(2)]
  show "out = Inr r \<Longrightarrow> IsSuccess r \<Longrightarrow> i \<in> set (map u_id (db_rows s)) \<and> db_rows t = filter (\<lambda>x. u_id x \<noteq> i) (db_rows s)"
    by (auto intro: rev_image_eqI)
qed

lemma read_all_laws:
  assumes "table_wf s" and "odb_ReadAll L s = (out, t)"
  shows "table_wf t \<and> db_rows t = db_rows s" and "out = Inr r \<Longrightarrow> GetResult r = Inr es \<Longrightarrow> es = db_rows s"
proof -
  note spec = read_all_spec [OF table_wf_tx [OF assms(1)]]
  from op_specD(1) [OF spec assms(2)] assms(1) show "table_wf t \<and> db_rows t = db_rows s"
    by (auto simp: table_same_def intro: table_same_wf)
  from op_specD(2) [OF spec assms(2)] show "out = Inr r \<Longrightarrow> GetResult r = Inr es \<Longrightarrow> es = db_rows s"
    by (auto dest: GetResult_SuccessD)
qed

interpretation odb: repository "odb_Create L" "odb_Read L" "odb_Update L" "odb_Delete L" "odb_ReadAll L"
    db_rows table_wf u_id "\<lambda>i e. e\<lparr>u_id := i\<rparr>"
  for L :: "('j, 'd) lib"
  by unfold_locales
    (simp, simp add: table_wf_def, (erule (1) create_laws read_laws update_laws delete_laws read_all_laws; (rule refl | assumption))+)

section \<open>Without faults\<close>

lemma faultless_ConsD: "faultless s \<Longrightarrow> db_faults s = f # fs \<Longrightarrow> f = No_fault \<and> list_all (\<lambda>f. f = No_fault) fs"
  by (simp add: faultless_def)

text \<open>
  With no fault to come \<open>Create\<close> succeeds, as long as the sequence has numbers left, and changes the
  table as the statement says; it does not log.
\<close>

lemma create_faultless:
  assumes "faultless s" and "table_wf s" and "db_seq s \<le> max_serial"
  shows "wp (odb_Create L e) (\<lambda>r t. r = Inr (SuccessResult True) \<and> faultless t \<and> db_tx t = None \<and>
    db_seq t = db_seq s + 1 \<and> db_rows t = db_rows s @ [e\<lparr>u_id := db_seq s\<rparr>]) s"
proof -
  have "db_seq s \<notin> u_id ` set (db_rows s)" using assms(2) by (auto simp: table_wf_def)
  with assms show ?thesis
    unfolding odb_Create_def odb_catch_def catch2_def table_wf_def faultless_def
    by (auto simp: body_simps max_serial_def split: list.splits fault.splits option.splits)
qed

section \<open>Runs\<close>

text \<open>Any sequence of calls, whatever each of them returns or throws.\<close>

datatype repo_call = Create user | Read int | Update user | Delete int | ReadAll

fun repo_step :: "('j, 'd) lib \<Rightarrow> repo_call \<Rightarrow> 'a dbsys_scheme \<Rightarrow> 'a dbsys_scheme" where
  "repo_step L (Create e) s = snd (odb_Create L e s)"
| "repo_step L (Read i) s = snd (odb_Read L i s)"
| "repo_step L (Update e) s = snd (odb_Update L e s)"
| "repo_step L (Delete i) s = snd (odb_Delete L i s)"
| "repo_step L ReadAll s = snd (odb_ReadAll L s)"

fun repo_run :: "('j, 'd) lib \<Rightarrow> repo_call list \<Rightarrow> 'a dbsys_scheme \<Rightarrow> 'a dbsys_scheme" where
  "repo_run L [] s = s"
| "repo_run L (c # cs) s = repo_run L cs (repo_step L c s)"

lemma op_spec_snd: "op_spec m s P \<Longrightarrow> table_same s (snd (m s)) \<or> (\<exists>x. P x (snd (m s)))"
  by (metis op_specD(1) prod.collapse)

lemma repo_step_wf: "table_wf s \<Longrightarrow> table_wf (repo_step L c s)"
  by (cases c) (auto intro: odb.create_wf odb.update_wf odb.delete_wf
      conjunct1 [OF odb.read_pure] conjunct1 [OF odb.read_all_pure] prod.collapse [symmetric])

text \<open>What one call can do to the table.\<close>

definition table_effect :: "'a dbsys_scheme \<Rightarrow> 'a dbsys_scheme \<Rightarrow> bool" where
  "table_effect s t \<longleftrightarrow> table_same s t \<or>
     (\<exists>e. db_seq t = db_seq s + 1 \<and> db_rows t = db_rows s @ [e\<lparr>u_id := db_seq s\<rparr>]) \<or>
     (\<exists>e. db_seq t = db_seq s \<and> db_rows t = map (\<lambda>x. if u_id x = u_id e then e else x) (db_rows s)) \<or>
     (\<exists>i. db_seq t = db_seq s \<and> db_rows t = filter (\<lambda>x. u_id x \<noteq> i) (db_rows s))"

lemma repo_step_effect:
  assumes "table_wf s"
  shows "table_effect s (repo_step L c s)"
proof (cases c)
  case (Create e)
  with op_spec_snd [OF create_spec [OF table_wf_tx [OF assms], of L e]] show ?thesis
    unfolding table_effect_def by auto
next
  case (Read i)
  with op_spec_snd [OF read_spec [OF table_wf_tx [OF assms], of L i]] show ?thesis
    unfolding table_effect_def by auto
next
  case (Update e)
  with op_spec_snd [OF update_spec [OF table_wf_tx [OF assms], of L e]] show ?thesis
    unfolding table_effect_def by auto
next
  case (Delete i)
  with op_spec_snd [OF delete_spec [OF table_wf_tx [OF assms], of L i]] show ?thesis
    unfolding table_effect_def by auto
next
  case ReadAll
  with op_spec_snd [OF read_all_spec [OF table_wf_tx [OF assms], of L]] show ?thesis
    unfolding table_effect_def by auto
qed

lemma table_effect_seq: "table_effect s t \<Longrightarrow> db_seq s \<le> db_seq t"
  by (auto simp: table_effect_def table_same_def)

text \<open>An identifier below the sequence that no row has is never given out again.\<close>

lemma table_effect_ids:
  assumes "table_effect s t" and "i < db_seq s" and "i \<notin> u_id ` set (db_rows s)"
  shows "i \<notin> u_id ` set (db_rows t)"
  using assms unfolding table_effect_def
proof (elim disjE exE conjE)
  fix e assume "db_rows t = map (\<lambda>x. if u_id x = u_id e then e else x) (db_rows s)"
  then have "map u_id (db_rows t) = map u_id (db_rows s)" by (simp only: updated_ids)
  with assms(3) show ?thesis by (metis image_set)
qed (use assms in \<open>auto simp: table_same_def\<close>)

lemma repo_run_wf: "table_wf s \<Longrightarrow> table_wf (repo_run L cs s)"
  by (induction cs arbitrary: s) (auto intro: repo_step_wf)

lemma repo_run_seq: "table_wf s \<Longrightarrow> db_seq s \<le> db_seq (repo_run L cs s)"
proof (induction cs arbitrary: s)
  case (Cons c cs)
  have "db_seq s \<le> db_seq (repo_step L c s)"
    by (rule table_effect_seq [OF repo_step_effect [OF Cons.prems]])
  also have "\<dots> \<le> db_seq (repo_run L cs (repo_step L c s))"
    by (rule Cons.IH [OF repo_step_wf [OF Cons.prems]])
  finally show ?case by simp
qed simp

lemma repo_run_ids:
  assumes "table_wf s" and "i < db_seq s" and "i \<notin> u_id ` set (db_rows s)"
  shows "i \<notin> u_id ` set (db_rows (repo_run L cs s))"
  using assms
proof (induction cs arbitrary: s)
  case (Cons c cs)
  note eff = repo_step_effect [OF Cons.prems(1), of L c]
  from Cons.prems(2) table_effect_seq [OF eff] have "i < db_seq (repo_step L c s)" by simp
  from Cons.IH [OF repo_step_wf [OF Cons.prems(1)] this table_effect_ids [OF eff Cons.prems(2,3)]]
  show ?case by simp
qed simp

section \<open>Properties\<close>

text \<open>
  C20: the table invariant survives everything: after any sequence of repository calls, whatever
  exchanges with the server failed and whatever the calls returned or threw, no transaction is left
  open, identifiers are distinct and below the sequence, and an identifier that had been drawn and is
  not in use (a deleted user's) has not been given to anybody.
\<close>

theorem odb_run_invariant:
  assumes "table_wf s"
  shows "table_wf (repo_run L cs s) \<and>
    {i. i < db_seq s} \<inter> u_id ` set (db_rows (repo_run L cs s)) \<subseteq> u_id ` set (db_rows s)"
  using repo_run_wf [OF assms] repo_run_ids [OF assms] by blast

text \<open>A concrete process state: an empty table, the sequence at 1, a clock and a generator that count.\<close>

definition demo_db :: "fault list \<Rightarrow> dbsys" where
  "demo_db fs = \<lparr>clk_seq = (\<lambda>n. n), clk_pos = 0, rng_seq = (\<lambda>n. int n mod 256), rng_pos = 0,
     rng_error = None, log_instance = None, log_stderr = [],
     db_rows = [], db_seq = 1, db_tx = None, db_faults = fs\<rparr>"

theorem odb_run_invariant_witness:
  "table_wf (repo_run demo_lib [Create (User ''a'' ''h'' ''s''), Delete 5, Create (User ''b'' ''h'' ''s'')]
      ((demo_db [])\<lparr>db_seq := 5\<rparr>)) \<and>
   {i. i < 5} \<inter> u_id ` set (db_rows (repo_run demo_lib [Create (User ''a'' ''h'' ''s''), Delete 5,
      Create (User ''b'' ''h'' ''s'')] ((demo_db [])\<lparr>db_seq := 5\<rparr>))) \<subseteq> {}"
proof -
  have "table_wf ((demo_db [])\<lparr>db_seq := 5\<rparr>)" by (simp add: table_wf_def demo_db_def)
  from odb_run_invariant [OF this, of demo_lib "[Create (User ''a'' ''h'' ''s''), Delete 5, Create (User ''b'' ''h'' ''s'')]"]
  show ?thesis by (simp only: demo_db_def dbsys.simps list.set image_empty)
qed

end
