(* ===== verification/UserRepository.thy ===== *)
theory UserRepository
  imports OdbRepository
begin

text \<open>
  \<^verbatim>\<open>app/Repositories/UserRepository.h\<close> and the interface it implements,
  \<^verbatim>\<open>app/Interfaces/IUserRepository.h\<close>, as the locale \<open>user_repository\<close>. The check for an existing
  name and the insertion are two transactions; the last section interleaves them between threads.
\<close>

section \<open>The operations\<close>

definition ur_site :: "int \<Rightarrow> string \<Rightarrow> site" where
  "ur_site line fn = (''app/Repositories/UserRepository.h'', line, fn)"

definition generic_failure :: string where
  "generic_failure = ''Something happened, please try again later''"

text \<open>
  Both on the object operations \<open>db\<close> of the connector. The loop over the result returns in its first
  iteration, after the commit.
\<close>

definition ur_getUserByUsername ::
  "('a dbsys_scheme) object_db \<Rightarrow> ('j, 'd) lib \<Rightarrow> string \<Rightarrow> ('a dbsys_scheme, user option operation_result) prog" where
  "ur_getUserByUsername db L username =
     catch
       (transaction
         (seq (od_query db (Query_username username)) (\<lambda>r.
          case r of
            user # _ \<Rightarrow> seq commit (\<lambda>_. ret (SuccessResult (Some user)))
          | [] \<Rightarrow> ret (FailureResult (''Failed to find user with username: '' @ username)))))
       is_std
       (\<lambda>e. seq (LOG L ERROR (what e) (ur_site 98 ''getUserByUsername'')) (\<lambda>_.
            ret (FailureResult generic_failure)))"

text \<open>The user that comes back is the argument: \<open>Create\<close> works on a copy, so its \<open>id\<close> stays 0.\<close>

definition ur_createUser ::
  "('a dbsys_scheme) object_db \<Rightarrow> ('j, 'd) lib \<Rightarrow> user \<Rightarrow> ('a dbsys_scheme, user operation_result) prog" where
  "ur_createUser db L user =
     catch
       (seq (ur_getUserByUsername db L (getUsername user)) (\<lambda>userExist.
        if IsSuccess userExist
        then ret (FailureResult (''User with username: '' @ getUsername user @ '' already exist.''))
        else
          seq (repo_Create db L user) (\<lambda>userCreated.
          if \<not> IsSuccess userCreated
          then ret (FailureResult (''Failed to create user with username: '' @ getUsername user))
          else ret (SuccessResult user))))
       is_odb
       (\<lambda>e. seq (LOG L ERROR (what e) (ur_site 67 ''createUser'')) (\<lambda>_.
            ret (FailureResult generic_failure)))"

text \<open>On the table operations, as the services use them from here on.\<close>

definition getUserByUsername ::
  "('j, 'd) lib \<Rightarrow> string \<Rightarrow> ('a dbsys_scheme, user option operation_result) prog" where
  getUserByUsername_repo: "getUserByUsername L = ur_getUserByUsername table_db L"

definition createUser :: "('j, 'd) lib \<Rightarrow> user \<Rightarrow> ('a dbsys_scheme, user operation_result) prog" where
  createUser_repo: "createUser L = ur_createUser table_db L"

lemma getUserByUsername_def: "getUserByUsername L username =
     catch
       (transaction
         (seq (db_query (\<lambda>u. u_username u = username)) (\<lambda>r.
          case r of
            user # _ \<Rightarrow> seq commit (\<lambda>_. ret (SuccessResult (Some user)))
          | [] \<Rightarrow> ret (FailureResult (''Failed to find user with username: '' @ username)))))
       is_std
       (\<lambda>e. seq (LOG L ERROR (what e) (ur_site 98 ''getUserByUsername'')) (\<lambda>_.
            ret (FailureResult generic_failure)))"
proof -
  have "query_holds (Query_username username) = (\<lambda>u. u_username u = username)" by (simp add: fun_eq_iff)
  then show ?thesis by (simp add: getUserByUsername_repo ur_getUserByUsername_def table_db_def)
qed

lemma createUser_def: "createUser L user =
     catch
       (seq (getUserByUsername L (getUsername user)) (\<lambda>userExist.
        if IsSuccess userExist
        then ret (FailureResult (''User with username: '' @ getUsername user @ '' already exist.''))
        else
          seq (odb_Create L user) (\<lambda>userCreated.
          if \<not> IsSuccess userCreated
          then ret (FailureResult (''Failed to create user with username: '' @ getUsername user))
          else ret (SuccessResult user))))
       is_odb
       (\<lambda>e. seq (LOG L ERROR (what e) (ur_site 67 ''createUser'')) (\<lambda>_.
            ret (FailureResult generic_failure)))"
  unfolding createUser_repo ur_createUser_def getUserByUsername_repo odb_repo ..

section \<open>What the lookup does\<close>

text \<open>Whatever happens, a lookup leaves the table as it is; a success is a row with that name.\<close>

lemma lookup_spec:
  assumes "db_tx s = None"
  shows "wp (getUserByUsername L n) (\<lambda>r t. db_tx t = None \<and> db_rows t = db_rows s \<and> db_seq t = db_seq s \<and>
     (log_total L \<and> faults_std s \<longrightarrow> (\<exists>v. r = Inr v)) \<and>
     (\<forall>v. r = Inr v \<longrightarrow> IsSuccess v \<longrightarrow>
        (\<exists>u. v = SuccessResult (Some u) \<and> u \<in> set (db_rows s) \<and> u_username u = n)) \<and>
     (\<forall>v. r = Inr v \<longrightarrow> \<not> IsSuccess v \<longrightarrow> (\<exists>m. v = FailureResult m))) s"
  unfolding getUserByUsername_def
  using assms
  by (intro wp_catch_LOG_ret)
     (auto simp: body_simps faults_std_def dest: filter_ConsD split: list.splits fault.splits option.splits)

text \<open>Without faults it finds a row exactly when there is one, and does not throw.\<close>

definition user_with :: "string \<Rightarrow> user list \<Rightarrow> user option" where
  "user_with n rows = find (\<lambda>u. u_username u = n) rows"

lemma find_filter: "find P xs = (case filter P xs of [] \<Rightarrow> None | x # _ \<Rightarrow> Some x)"
  by (induction xs) auto

definition lookup_result :: "string \<Rightarrow> user list \<Rightarrow> user option operation_result" where
  "lookup_result n rows = (case user_with n rows of
      Some u \<Rightarrow> SuccessResult (Some u)
    | None \<Rightarrow> FailureResult (''Failed to find user with username: '' @ n))"

lemma lookup_faultless:
  assumes "faultless s" and "db_tx s = None"
  shows "wp (getUserByUsername L n) (\<lambda>r t. r = Inr (lookup_result n (db_rows s)) \<and>
     db_tx t = None \<and> db_rows t = db_rows s \<and> db_seq t = db_seq s \<and> faultless t \<and> rng_pos t = rng_pos s \<and>
     log_instance t = log_instance s) s"
  unfolding getUserByUsername_def lookup_result_def user_with_def find_filter
  using assms
  by (auto simp: body_simps faultless_def split: list.splits fault.splits option.splits)

section \<open>What createUser does\<close>

lemma op_spec_wp:
  assumes "op_spec m s P"
  shows "wp m (\<lambda>r t. (table_same s t \<or> (\<exists>x. P x t)) \<and> (\<forall>v. r = Inr v \<longrightarrow> IsSuccess v \<longrightarrow> P (or_result v) t)) s"
  using assms by (auto simp: wp_def op_spec_def split: prod.splits)

text \<open>
  The effect on the table, in every case: nothing, or one row more, which is the argument with the
  next identifier; a success means the latter and returns the argument.
\<close>

definition appended :: "user \<Rightarrow> 'a dbsys_scheme \<Rightarrow> 'a dbsys_scheme \<Rightarrow> bool" where
  "appended u s t \<longleftrightarrow> db_tx t = None \<and> (\<exists>i \<ge> db_seq s. db_seq t = i + 1 \<and> db_rows t = db_rows s @ [u\<lparr>u_id := i\<rparr>])"

lemma appended_wf: "table_wf s \<Longrightarrow> appended u s t \<Longrightarrow> table_wf t"
  by (fastforce simp: table_wf_def appended_def)

lemma createUser_spec:
  assumes "db_tx s = None"
  shows "wp (createUser L u) (\<lambda>r t. (table_same s t \<or> appended u s t) \<and>
     (\<forall>v. r = Inr v \<longrightarrow> IsSuccess v \<longrightarrow> v = SuccessResult u \<and> appended u s t) \<and>
     (\<forall>v. r = Inr v \<longrightarrow> \<not> IsSuccess v \<longrightarrow> (\<exists>m. v = FailureResult m))) s"
proof -
  have create: "wp (odb_Create L u) (\<lambda>r t. (table_same s t \<or> appended u s t) \<and>
      (\<forall>v. r = Inr v \<longrightarrow> IsSuccess v \<longrightarrow> appended u s t)) s'"
    if "db_tx s' = None" "db_rows s' = db_rows s" "db_seq s' = db_seq s" for s'
    by (rule wp_conseq [OF op_spec_wp [OF create_spec [OF that(1)]]])
       (use that in \<open>auto simp: table_same_def appended_def\<close>)
  have body: "wp (seq (getUserByUsername L (getUsername u)) (\<lambda>userExist.
        if IsSuccess userExist
        then ret (FailureResult (''User with username: '' @ getUsername u @ '' already exist.''))
        else
          seq (odb_Create L u) (\<lambda>userCreated.
          if \<not> IsSuccess userCreated
          then ret (FailureResult (''Failed to create user with username: '' @ getUsername u))
          else ret (SuccessResult u))))
     (\<lambda>r t. (table_same s t \<or> appended u s t) \<and>
       (\<forall>v. r = Inr v \<longrightarrow> IsSuccess v \<longrightarrow> v = SuccessResult u \<and> appended u s t) \<and>
       (\<forall>v. r = Inr v \<longrightarrow> \<not> IsSuccess v \<longrightarrow> (\<exists>m. v = FailureResult m))) s"
    unfolding wp_seq [of "getUserByUsername L (getUsername u)"]
  proof (rule wp_conseq [OF lookup_spec [OF assms]], goal_cases)
    case (1 r t)
    then have t: "db_tx t = None" "db_rows t = db_rows s" "db_seq t = db_seq s" by auto
    then have same: "table_same s t" by (simp add: table_same_def)
    show ?case
    proof (cases r)
      case (Inl e)
      with same show ?thesis by simp
    next
      case (Inr v)
      have "wp (seq (odb_Create L u) (\<lambda>userCreated.
          if \<not> IsSuccess userCreated
          then ret (FailureResult (''Failed to create user with username: '' @ getUsername u))
          else ret (SuccessResult u))) (\<lambda>r t. (table_same s t \<or> appended u s t) \<and>
       (\<forall>v. r = Inr v \<longrightarrow> IsSuccess v \<longrightarrow> v = SuccessResult u \<and> appended u s t) \<and>
       (\<forall>v. r = Inr v \<longrightarrow> \<not> IsSuccess v \<longrightarrow> (\<exists>m. v = FailureResult m))) t"
        unfolding wp_seq
        by (rule wp_conseq [OF create [OF t]]) (auto simp: wp_rules split: sum.splits)
      with Inr same show ?thesis by (auto simp: wp_if wp_ret)
    qed
  qed
  show ?thesis
    unfolding createUser_def
    by (rule wp_catch_LOG_ret, rule wp_conseq [OF body])
       (auto simp: table_same_def appended_def split: sum.splits)
qed

text \<open>Without faults: exactly what happens.\<close>

lemma createUser_exists:
  assumes "faultless s" and "db_tx s = None" and "user_with (u_username u) (db_rows s) \<noteq> None"
  shows "wp (createUser L u) (\<lambda>r t. r = Inr (FailureResult (''User with username: '' @ u_username u @ '' already exist.''))
     \<and> db_tx t = None \<and> db_rows t = db_rows s \<and> db_seq t = db_seq s \<and> faultless t) s"
  unfolding createUser_def wp_catch wp_seq [of "getUserByUsername L (getUsername u)"]
  by (rule wp_conseq [OF lookup_faultless [OF assms(1,2)]])
     (use assms(3) in \<open>auto simp: lookup_result_def wp_rules\<close>)

lemma createUser_fresh:
  assumes "faultless s" and "table_wf s" and "db_seq s \<le> max_serial"
    and "user_with (u_username u) (db_rows s) = None"
  shows "wp (createUser L u) (\<lambda>r t. r = Inr (SuccessResult u) \<and> faultless t \<and> db_tx t = None \<and>
     db_seq t = db_seq s + 1 \<and> db_rows t = db_rows s @ [u\<lparr>u_id := db_seq s\<rparr>]) s"
  unfolding createUser_def wp_catch wp_seq [of "getUserByUsername L (getUsername u)"]
proof (rule wp_conseq [OF lookup_faultless [OF assms(1) table_wf_tx [OF assms(2)]]], goal_cases)
  case (1 r t)
  then have t: "table_wf t" "faultless t" "db_seq t \<le> max_serial" "db_seq t = db_seq s" "db_rows t = db_rows s"
    using assms(2,3) by (auto simp: table_wf_def)
  have "wp (seq (odb_Create L u) (\<lambda>userCreated.
          if \<not> IsSuccess userCreated
          then ret (FailureResult (''Failed to create user with username: '' @ getUsername u))
          else ret (SuccessResult u))) (\<lambda>r t. r = Inr (SuccessResult u) \<and> faultless t \<and> db_tx t = None \<and>
     db_seq t = db_seq s + 1 \<and> db_rows t = db_rows s @ [u\<lparr>u_id := db_seq s\<rparr>]) t"
    unfolding wp_seq
    by (rule wp_conseq [OF create_faultless [OF t(2,1,3)]]) (use t in \<open>auto simp: wp_rules\<close>)
  with 1 assms(4) show ?case
    by (auto simp: lookup_result_def wp_if elim!: wp_conseq)
qed

lemma user_with_None: "user_with n rows = None \<longleftrightarrow> n \<notin> u_username ` set rows"
  by (auto simp: user_with_def find_None_iff)

lemma user_with_Some: "user_with n rows = Some u \<Longrightarrow> u \<in> set rows \<and> u_username u = n"
  by (auto simp: user_with_def find_Some_iff)

section \<open>The interface\<close>

lemma lookup_keeps_faultless: "preserves faultless (getUserByUsername L n)"
  unfolding getUserByUsername_def
  by (intro faultless_rules transaction_faultless commit_faultless statements_faultless) simp_all

lemma odb_Create_keeps_faultless: "preserves faultless (odb_Create L u)"
  unfolding odb_Create_def odb_catch_def
  by (intro faultless_rules transaction_faultless commit_faultless statements_faultless) simp_all

lemma createUser_keeps_faultless: "preserves faultless (createUser L u)"
  unfolding createUser_def
  by (intro faultless_rules lookup_keeps_faultless odb_Create_keeps_faultless) simp_all

text \<open>
  A store of users by name. \<open>calm\<close> says that nothing the store depends on will fail, \<open>room\<close> that
  it can take another user. The first group of laws holds whatever fails; the second says what
  happens when nothing does.
\<close>

locale user_repository =
  fixes get_user :: "string \<Rightarrow> ('s, user option operation_result) prog"
    and create_user :: "user \<Rightarrow> ('s, user operation_result) prog"
    and rows :: "'s \<Rightarrow> user list"
    and wf :: "'s \<Rightarrow> bool"
    and calm :: "'s \<Rightarrow> bool"
    and room :: "'s \<Rightarrow> bool"
  assumes get_pure: "wf s \<Longrightarrow> get_user n s = (go, t) \<Longrightarrow> wf t \<and> rows t = rows s \<and> (room s \<longrightarrow> room t)"
    and get_success: "wf s \<Longrightarrow> get_user n s = (Inr g, t) \<Longrightarrow> IsSuccess g \<Longrightarrow>
          \<exists>u \<in> set (rows s). g = SuccessResult (Some u) \<and> u_username u = n"
    and get_failure: "wf s \<Longrightarrow> get_user n s = (Inr g, t) \<Longrightarrow> \<not> IsSuccess g \<Longrightarrow> \<exists>m. g = FailureResult m"
    and create_wf: "wf s \<Longrightarrow> create_user u s = (co, t) \<Longrightarrow> wf t"
    and create_rows: "wf s \<Longrightarrow> create_user u s = (co, t) \<Longrightarrow>
          rows t = rows s \<or> (\<exists>i. rows t = rows s @ [u\<lparr>u_id := i\<rparr>])"
    and create_success: "wf s \<Longrightarrow> create_user u s = (Inr c, t) \<Longrightarrow> IsSuccess c \<Longrightarrow>
          c = SuccessResult u \<and> (\<exists>i. rows t = rows s @ [u\<lparr>u_id := i\<rparr>])"
    and create_failure: "wf s \<Longrightarrow> create_user u s = (Inr c, t) \<Longrightarrow> \<not> IsSuccess c \<Longrightarrow> \<exists>m. c = FailureResult m"
    and calm_get: "wf s \<Longrightarrow> calm s \<Longrightarrow> \<exists>t. get_user n s = (Inr (lookup_result n (rows s)), t) \<and> calm t"
    and calm_create: "calm s \<Longrightarrow> create_user u s = (co, t) \<Longrightarrow> calm t"
    and calm_exists: "wf s \<Longrightarrow> calm s \<Longrightarrow> u_username u \<in> u_username ` set (rows s) \<Longrightarrow>
          \<exists>t. create_user u s = (Inr (FailureResult (''User with username: '' @ u_username u @ '' already exist.'')), t)
            \<and> rows t = rows s"
    and calm_fresh: "wf s \<Longrightarrow> calm s \<Longrightarrow> room s \<Longrightarrow> u_username u \<notin> u_username ` set (rows s) \<Longrightarrow>
          \<exists>t i. create_user u s = (Inr (SuccessResult u), t) \<and> rows t = rows s @ [u\<lparr>u_id := i\<rparr>]"
begin

text \<open>Names stay unique as long as nothing fails.\<close>

lemma create_keeps_unique:
  assumes "wf s" and "calm s" and "distinct (map u_username (rows s))" and "create_user u s = (co, t)"
  shows "distinct (map u_username (rows t))"
proof (cases "u_username u \<in> u_username ` set (rows s)")
  case True
  with calm_exists [OF assms(1,2)] assms(3,4) show ?thesis by fastforce
next
  case False
  with create_rows [OF assms(1,4)] assms(3) show ?thesis by auto
qed

lemma create_then_get:
  assumes "wf s" and "calm s" and "room s" and "u_username u \<notin> u_username ` set (rows s)"
  shows "\<exists>t i. create_user u s = (Inr (SuccessResult u), t) \<and> wf t \<and> calm t \<and> rows t = rows s @ [u\<lparr>u_id := i\<rparr>] \<and>
    lookup_result (u_username u) (rows t) = SuccessResult (Some (u\<lparr>u_id := i\<rparr>))"
proof -
  obtain t i where t: "create_user u s = (Inr (SuccessResult u), t)" "rows t = rows s @ [u\<lparr>u_id := i\<rparr>]"
    using calm_fresh [OF assms] by blast
  have "user_with (u_username u) (rows s) = None" using assms(4) by (simp add: user_with_None)
  then have "lookup_result (u_username u) (rows t) = SuccessResult (Some (u\<lparr>u_id := i\<rparr>))"
    unfolding t(2) lookup_result_def user_with_def find_filter by (simp split: list.splits)
  with t create_wf [OF assms(1) t(1)] calm_create [OF assms(2) t(1)] show ?thesis by blast
qed

end

interpretation users: user_repository "getUserByUsername L" "createUser L" db_rows table_wf faultless
    "\<lambda>s. db_seq s \<le> max_serial"
  for L :: "('j, 'd) lib"
proof (unfold_locales, goal_cases)
  case (1 s n out t)
  from wpD [OF lookup_spec [OF table_wf_tx [OF 1(1)]] 1(2)] 1(1) show ?case by (simp add: table_wf_def)
next
  case (2 s n v t)
  from wpD [OF lookup_spec [OF table_wf_tx [OF 2(1)]] 2(2)] 2(3) show ?case by auto
next
  case (3 s n v t)
  from wpD [OF lookup_spec [OF table_wf_tx [OF 3(1)]] 3(2)] 3(3) show ?case by auto
next
  case (4 s u out t)
  from wpD [OF createUser_spec [OF table_wf_tx [OF 4(1)]] 4(2)] 4(1) show ?case
    by (auto intro: table_same_wf appended_wf)
next
  case (5 s u out t)
  from wpD [OF createUser_spec [OF table_wf_tx [OF 5(1)]] 5(2)] show ?case
    by (auto simp: table_same_def appended_def)
next
  case (6 s u v t)
  from wpD [OF createUser_spec [OF table_wf_tx [OF 6(1)]] 6(2)] 6(3) show ?case
    by (auto simp: appended_def)
next
  case (7 s u v t)
  from wpD [OF createUser_spec [OF table_wf_tx [OF 7(1)]] 7(2)] 7(3) show ?case by auto
next
  case (8 s n)
  from lookup_faultless [OF 8(2) table_wf_tx [OF 8(1)]] show ?case
    by (auto simp: wp_def split: prod.splits)
next
  case (9 s u out t)
  then show ?case by (rule preserves_result [OF createUser_keeps_faultless])
next
  case (10 s u)
  then have "user_with (u_username u) (db_rows s) \<noteq> None" by (simp add: user_with_None)
  from createUser_exists [OF 10(2) table_wf_tx [OF 10(1)] this] show ?case
    by (auto simp: wp_def split: prod.splits)
next
  case (11 s u)
  then have "user_with (u_username u) (db_rows s) = None" by (simp add: user_with_None)
  from createUser_fresh [OF 11(2,1,3) this, of L] show ?case
    by (auto simp: wp_def split: prod.splits)
qed

end
