(* ===== verification/UserRace.thy ===== *)
theory UserRace
  imports UserRepository
begin

text \<open>
  Registrations on several worker threads (\<^verbatim>\<open>app/main.cc\<close> runs the I/O context on four). \<open>createUser\<close> is
  two transactions, the lookup and the insertion, and another thread's transactions can come between
  them. A thread is at one of its two transactions, a schedule says which thread moves next, and a
  move runs one transaction with the functions of \<open>UserRepository\<close> and \<open>OdbRepository\<close>.
\<close>

section \<open>Threads\<close>

datatype create_pc =
    At_lookup user
  | At_insert user
  | Finished "exn + user operation_result"

text \<open>On the object operations \<open>db\<close>, as the operations it is made of; \<open>create_step\<close> is that on the table.\<close>

definition create_step_on ::
  "('a dbsys_scheme) object_db \<Rightarrow> ('j, 'd) lib \<Rightarrow> create_pc \<Rightarrow> 'a dbsys_scheme \<Rightarrow> create_pc \<times> 'a dbsys_scheme" where
  "create_step_on db L pc s = (case pc of
      At_lookup user \<Rightarrow>
        (case ur_getUserByUsername db L (getUsername user) s of
           (Inl e, t) \<Rightarrow> (Finished (Inl e), t)
         | (Inr userExist, t) \<Rightarrow>
             if IsSuccess userExist
             then (Finished (Inr (FailureResult (''User with username: '' @ getUsername user @ '' already exist.''))), t)
             else (At_insert user, t))
    | At_insert user \<Rightarrow>
        (case repo_Create db L user s of
           (Inl e, t) \<Rightarrow> (Finished (Inl e), t)
         | (Inr userCreated, t) \<Rightarrow>
             if \<not> IsSuccess userCreated
             then (Finished (Inr (FailureResult (''Failed to create user with username: '' @ getUsername user))), t)
             else (Finished (Inr (SuccessResult user)), t))
    | Finished r \<Rightarrow> (Finished r, s))"

definition create_step ::
  "('j, 'd) lib \<Rightarrow> create_pc \<Rightarrow> 'a dbsys_scheme \<Rightarrow> create_pc \<times> 'a dbsys_scheme" where
  create_step_table: "create_step L = create_step_on table_db L"

lemmas create_step_def = create_step_on_def [where db = table_db, folded create_step_table getUserByUsername_repo odb_Create_repo]

fun run_schedule ::
  "('j, 'd) lib \<Rightarrow> nat list \<Rightarrow> create_pc list \<Rightarrow> 'a dbsys_scheme \<Rightarrow> create_pc list \<times> 'a dbsys_scheme" where
  "run_schedule L [] pcs s = (pcs, s)"
| "run_schedule L (i # is) pcs s =
     (if i < length pcs
      then (case create_step L (pcs ! i) s of (pc, t) \<Rightarrow> run_schedule L is (pcs[i := pc]) t)
      else run_schedule L is pcs s)"

section \<open>One thread alone\<close>

text \<open>With a logger that cannot throw and faults that are exceptions neither transaction throws.\<close>

lemma odb_catch_value:
  assumes "log_total L" and "wp m (\<lambda>r t. \<forall>e. r = Inl e \<longrightarrow> is_std e) s"
  shows "wp (odb_catch L line fn m) (\<lambda>r t. \<exists>v. r = Inr v) s"
  unfolding odb_catch_def catch2_def wp_catch
  by (rule wp_conseq [OF assms(2)]) (auto intro!: wp_LOG_ret simp: assms(1) split: sum.split)

lemma odb_Create_value:
  assumes "log_total L" and "faults_std s" and "db_tx s = None"
  shows "\<exists>v t. odb_Create L u s = (Inr v, t)"
proof -
  have "wp (odb_Create L u) (\<lambda>r t. \<exists>v. r = Inr v) s"
    unfolding odb_Create_def
    by (rule odb_catch_value [OF assms(1)])
       (use assms(2,3) in \<open>auto simp: body_simps faults_std_def split: list.splits fault.splits option.splits\<close>)
  then show ?thesis by (auto simp: wp_def split: prod.splits)
qed

text \<open>Exchanges use up the list of faults from the front, so what is left are exceptions, too.\<close>

lemma faults_std_updates [simp]:
  "faults_std (s\<lparr>db_rows := r\<rparr>) = faults_std s" "faults_std (s\<lparr>db_tx := x\<rparr>) = faults_std s"
  "faults_std (s\<lparr>db_seq := q\<rparr>) = faults_std s" "faults_std (s\<lparr>clk_pos := n\<rparr>) = faults_std s"
  "faults_std (s\<lparr>log_instance := i\<rparr>) = faults_std s" "faults_std (s\<lparr>log_stderr := e\<rparr>) = faults_std s"
  by (simp_all add: faults_std_def)

lemma next_fault_faults_std: "preserves faults_std next_fault"
  by (rule preserves_wp) (auto simp: wp_rules faults_std_def split: list.splits)

lemma lookup_faults_std: "preserves faults_std (getUserByUsername L n)"
  unfolding getUserByUsername_def transaction_def db_begin_def exchange_def commit_def db_query_def
    sql_select_def current_table_def
  by (intro preserves_rules preserves_LOG preserves_modify preserves_at_exit next_fault_faults_std) simp_all

section \<open>Insertions by lookups gone stale\<close>

text \<open>A step of one thread in a table without faults, as an equation on the table.\<close>

lemma lookup_step_fresh:
  assumes "faultless s" and "db_tx s = None" and "u_username u \<notin> u_username ` set (db_rows s)"
  shows "\<exists>t. create_step L (At_lookup u) s = (At_insert u, t) \<and> faultless t \<and> db_tx t = None \<and>
    db_rows t = db_rows s \<and> db_seq t = db_seq s"
proof -
  have "user_with (u_username u) (db_rows s) = None" using assms(3) by (simp add: user_with_None)
  with lookup_faultless [OF assms(1,2), of L "u_username u"] show ?thesis
    by (auto simp: create_step_def wp_def lookup_result_def split: prod.splits)
qed

lemma lookup_step_exists:
  assumes "faultless s" and "db_tx s = None" and "u_username u \<in> u_username ` set (db_rows s)"
  shows "\<exists>t. create_step L (At_lookup u) s =
      (Finished (Inr (FailureResult (''User with username: '' @ u_username u @ '' already exist.''))), t) \<and>
    db_rows t = db_rows s"
proof -
  have "user_with (u_username u) (db_rows s) \<noteq> None" using assms(3) by (simp add: user_with_None)
  with lookup_faultless [OF assms(1,2), of L "u_username u"] show ?thesis
    by (auto simp: create_step_def wp_def lookup_result_def split: prod.splits)
qed

lemma insert_step:
  assumes "faultless s" and "table_wf s" and "db_seq s \<le> max_serial"
  shows "\<exists>t. create_step L (At_insert u) s = (Finished (Inr (SuccessResult u)), t) \<and> faultless t \<and>
    table_wf t \<and> db_seq t = db_seq s + 1 \<and> db_rows t = db_rows s @ [u\<lparr>u_id := db_seq s\<rparr>]"
proof -
  have "table_wf t" if "db_tx t = None" "db_seq t = db_seq s + 1"
    "db_rows t = db_rows s @ [u\<lparr>u_id := db_seq s\<rparr>]" for t :: "'a dbsys_scheme"
    using assms(2) that by (fastforce simp: table_wf_def)
  with create_faultless [OF assms, of L u] show ?thesis
    by (auto simp: create_step_def wp_def split: prod.splits)
qed

section \<open>Any number of threads\<close>

text \<open>What a move can do, whatever fails during it.\<close>

definition registered_ok :: "exn + user operation_result \<Rightarrow> bool" where
  "registered_ok r \<longleftrightarrow> (\<exists>v. r = Inr v \<and> IsSuccess v)"

lemma lookup_move:
  assumes "table_wf s" and "create_step L (At_lookup u) s = (pc, t)"
  shows "table_wf t \<and> db_rows t = db_rows s \<and> (pc = At_insert u \<or> (\<exists>r. pc = Finished r \<and> \<not> registered_ok r))"
proof -
  obtain r v where g: "getUserByUsername L (u_username u) s = (r, v)" by fastforce
  have "table_wf v" "db_rows v = db_rows s" using users.get_pure [OF assms(1) g] by simp_all
  with assms(2) g show ?thesis
    by (auto simp: create_step_def registered_ok_def split: sum.splits if_splits)
qed

lemma insert_move:
  assumes "table_wf s" and "create_step L (At_insert u) s = (pc, t)"
  shows "table_wf t \<and> (\<exists>r. pc = Finished r \<and>
    (db_rows t = db_rows s \<and> \<not> registered_ok r \<or> (\<exists>k. db_rows t = db_rows s @ [u\<lparr>u_id := k\<rparr>])))"
proof -
  obtain r v where c: "odb_Create L u s = (r, v)" by fastforce
  note laws = odb.create_wf [OF assms(1) c] odb.create_rows [OF assms(1) c]
  show ?thesis
  proof (cases r)
    case (Inl e)
    with assms(2) c laws show ?thesis by (auto simp: create_step_def registered_ok_def)
  next
    case (Inr b)
    with assms(2) c laws odb.create_success [OF assms(1) c [unfolded Inr]] show ?thesis
      by (auto simp: create_step_def registered_ok_def split: if_splits)
  qed
qed

text \<open>
  The threads and the table after any moves: the new rows belong to the threads \<open>who\<close>, one row to a thread,
  all of them through; and a thread that reports success is among them.
\<close>

definition race_inv :: "user list \<Rightarrow> user list \<Rightarrow> create_pc list \<Rightarrow> 'a dbsys_scheme \<Rightarrow> nat list \<Rightarrow> user list \<Rightarrow> bool" where
  "race_inv us rows pcs s who new \<longleftrightarrow> table_wf s \<and> length pcs = length us \<and> distinct who \<and> db_rows s = rows @ new \<and>
     (\<forall>i \<in> set who. i < length us \<and> (\<exists>r. pcs ! i = Finished r)) \<and>
     list_all2 (\<lambda>i x. \<exists>k. x = (us ! i)\<lparr>u_id := k\<rparr>) who new \<and>
     (\<forall>i < length us. case pcs ! i of At_lookup u \<Rightarrow> u = us ! i | At_insert u \<Rightarrow> u = us ! i
        | Finished r \<Rightarrow> registered_ok r \<longrightarrow> i \<in> set who)"

lemma race_step:
  assumes "race_inv us rows pcs s who new" and "i < length pcs" and "create_step L (pcs ! i) s = (pc, t)"
  shows "\<exists>who' new'. race_inv us rows (pcs[i := pc]) t who' new'"
proof (cases "pcs ! i")
  case (At_lookup u)
  from assms(1,2) At_lookup have "i \<notin> set who" by (auto simp: race_inv_def)
  with lookup_move [of s L u pc t] assms At_lookup show ?thesis
    by (intro exI [of _ who] exI [of _ new])
       (auto simp: race_inv_def nth_list_update split: create_pc.splits)
next
  case (At_insert u)
  from assms(1,2) At_insert have i: "i \<notin> set who" "u = us ! i" "table_wf s" "db_rows s = rows @ new"
    by (auto simp: race_inv_def)
  from insert_move [OF i(3), of L u pc t] assms(3) At_insert obtain r where
    t: "table_wf t" "pc = Finished r"
    "db_rows t = db_rows s \<and> \<not> registered_ok r \<or> (\<exists>k. db_rows t = db_rows s @ [u\<lparr>u_id := k\<rparr>])" by auto
  from t(3) show ?thesis
  proof (elim disjE exE conjE)
    assume "db_rows t = db_rows s" "\<not> registered_ok r"
    with assms(1,2) t(1,2) i show ?thesis
      by (intro exI [of _ who] exI [of _ new])
         (auto simp: race_inv_def nth_list_update split: create_pc.splits)
  next
    fix k assume "db_rows t = db_rows s @ [u\<lparr>u_id := k\<rparr>]"
    with assms(1,2) t(1,2) i show ?thesis
      by (intro exI [of _ "who @ [i]"] exI [of _ "new @ [u\<lparr>u_id := k\<rparr>]"])
         (auto simp: race_inv_def nth_list_update intro!: list_all2_appendI split: create_pc.splits)
  qed
next
  case (Finished r)
  with assms(3) have "pcs[i := pc] = pcs" "t = s" by (auto simp: create_step_def list_update_same_conv assms(2))
  with assms(1) show ?thesis by auto
qed

lemma race_run:
  assumes "race_inv us rows pcs s who new" and "run_schedule L sched pcs s = (pcs', t)"
  shows "\<exists>who' new'. race_inv us rows pcs' t who' new'"
  using assms
proof (induction sched arbitrary: pcs s who new)
  case (Cons i js)
  show ?case
  proof (cases "i < length pcs")
    case True
    obtain pc u where c: "create_step L (pcs ! i) s = (pc, u)" by fastforce
    from race_step [OF Cons.prems(1) True c] obtain who' new' where "race_inv us rows (pcs[i := pc]) u who' new'" by blast
    from Cons.IH [OF this] Cons.prems(2) True c show ?thesis by simp
  next
    case False
    with Cons.IH [OF Cons.prems(1)] Cons.prems(2) show ?thesis by simp
  qed
qed auto

text \<open>A thread has at most two moves to make.\<close>

fun moves_left :: "create_pc \<Rightarrow> nat" where
  "moves_left (At_lookup u) = 2"
| "moves_left (At_insert u) = 1"
| "moves_left (Finished r) = 0"

lemma move_rank: "create_step L pc s = (pc', t) \<Longrightarrow> moves_left pc' \<le> moves_left pc - 1"
  by (cases pc) (auto simp: create_step_def split: prod.splits sum.splits if_splits)

lemma run_rank:
  assumes "run_schedule L sched pcs s = (pcs', t)" and "i < length pcs"
  shows "moves_left (pcs' ! i) \<le> moves_left (pcs ! i) - count_list sched i"
  using assms
proof (induction sched arbitrary: pcs s)
  case (Cons j js)
  show ?case
  proof (cases "j < length pcs")
    case True
    obtain pc u where c: "create_step L (pcs ! j) s = (pc, u)" by fastforce
    have "moves_left (pcs' ! i) \<le> moves_left (pcs[j := pc] ! i) - count_list js i"
      using Cons.IH [of "pcs[j := pc]" u] Cons.prems True c by simp
    with move_rank [OF c] True show ?thesis by (cases "j = i") auto
  next
    case False
    with Cons.IH [of pcs s] Cons.prems show ?thesis by auto
  qed
qed simp

text \<open>
  Registrations under every schedule. Any number of registrations, with their transactions interleaved in
  any way and whatever exchanges with the database failing, only add rows: at most one for each thread, with
  its name, hash and salt, and one for each thread that reports success; identifiers stay distinct, and a
  thread that was given two moves is through. If the names are distinct and free to begin with, no name is
  ever stored twice.
\<close>

theorem registrations_any_schedule:
  assumes "table_wf s" and "run_schedule L sched (map At_lookup us) s = (pcs, t)"
  shows "table_wf t \<and> (\<exists>who new. db_rows t = db_rows s @ new \<and> distinct who \<and>
      list_all2 (\<lambda>i x. i < length us \<and> (\<exists>k. x = (us ! i)\<lparr>u_id := k\<rparr>)) who new \<and>
      (\<forall>i < length us. \<forall>v. pcs ! i = Finished (Inr v) \<and> IsSuccess v \<longrightarrow> i \<in> set who)) \<and>
    (\<forall>i < length us. 2 \<le> count_list sched i \<longrightarrow> (\<exists>r. pcs ! i = Finished r)) \<and>
    (distinct (map u_username (db_rows s @ us)) \<longrightarrow> distinct (map u_username (db_rows t)))"
proof -
  have "race_inv us (db_rows s) (map At_lookup us) s [] []" using assms(1) by (simp add: race_inv_def)
  from race_run [OF this assms(2)] obtain who new where inv: "race_inv us (db_rows s) pcs t who new" by blast
  then have rows: "list_all2 (\<lambda>i x. i < length us \<and> (\<exists>k. x = (us ! i)\<lparr>u_id := k\<rparr>)) who new"
    by (auto simp: race_inv_def list_all2_conv_all_nth)
  have names: "map u_username new = map (\<lambda>i. u_username (us ! i)) who"
    using rows by (auto simp: list_all2_conv_all_nth intro!: nth_equalityI)
  have "distinct (map u_username (db_rows t))" if d: "distinct (map u_username (db_rows s @ us))"
  proof -
    have "distinct (map u_username us)" using d by simp
    moreover have "i < length us" if "i \<in> set who" for i using inv that by (simp add: race_inv_def)
    ultimately have inj: "inj_on (\<lambda>i. u_username (us ! i)) (set who)"
      by (intro inj_onI) (use nth_eq_iff_index_eq [of "map u_username us"] in force)
    have "set (map u_username new) \<subseteq> u_username ` set us" using names inv by (auto simp: race_inv_def)
    with d inv names inj show ?thesis by (auto simp: race_inv_def distinct_map)
  qed
  moreover have "\<exists>r. pcs ! i = Finished r" if "i < length us" "2 \<le> count_list sched i" for i
    using run_rank [OF assms(2), of i] that by (cases "pcs ! i") auto
  moreover have "i \<in> set who" if "i < length us" "pcs ! i = Finished (Inr v)" "IsSuccess v" for i v
  proof -
    have "registered_ok (Inr v)" using that(3) by (simp add: registered_ok_def)
    with inv that(1,2) show ?thesis by (auto simp: race_inv_def split: create_pc.splits)
  qed
  moreover have "table_wf t" "db_rows t = db_rows s @ new" "distinct who" using inv by (simp_all add: race_inv_def)
  ultimately show ?thesis using rows by blast
qed

theorem registrations_any_schedule_witness:
  "let (pcs, t) = run_schedule demo_lib [2, 0, 1, 0, 2, 1] (map At_lookup [User ''ann'' ''h1'' ''s1'', User ''bob'' ''h2'' ''s2'', User ''cat'' ''h3'' ''s3''])
      (demo_db [No_fault, Fault (Connection_lost ''x'')])
   in table_wf t \<and> (\<forall>i < 3. \<exists>r. pcs ! i = Finished r) \<and> distinct (map u_username (db_rows t))"
proof -
  let ?us = "[User ''ann'' ''h1'' ''s1'', User ''bob'' ''h2'' ''s2'', User ''cat'' ''h3'' ''s3'']"
  let ?s = "demo_db [No_fault, Fault (Connection_lost ''x'')]"
  obtain pcs t where run: "run_schedule demo_lib [2, 0, 1, 0, 2, 1] (map At_lookup ?us) ?s = (pcs, t)" by fastforce
  have s: "table_wf ?s" "distinct (map u_username (db_rows ?s @ ?us))" by (simp_all add: demo_db_def table_wf_def)
  have two: "2 \<le> count_list [2, 0, 1, 0, 2, 1 :: nat] i" if "i < 3" for i
    using that by (auto simp: less_Suc_eq numeral_3_eq_3)
  from registrations_any_schedule [OF s(1) run] s(2) two show ?thesis unfolding run by simp
qed

section \<open>Properties\<close>



text \<open>
  Two registrations of the same new name that run one after the other end with one row: the
  first succeeds, the second is told that the name exists.
\<close>

theorem serial_registrations:
  assumes "faultless s" and "table_wf s" and "db_seq s \<le> max_serial"
    and "u_username u \<notin> u_username ` set (db_rows s)" and "u_username v = u_username u"
  shows "\<exists>t. run_schedule L [0, 0, 1, 1] [At_lookup u, At_lookup v] s =
      ([Finished (Inr (SuccessResult u)),
        Finished (Inr (FailureResult (''User with username: '' @ u_username u @ '' already exist.'')))], t) \<and>
    db_rows t = db_rows s @ [u\<lparr>u_id := db_seq s\<rparr>]"
proof -
  obtain s1 where s1: "create_step L (At_lookup u) s = (At_insert u, s1)" "faultless s1" "db_tx s1 = None"
      "db_rows s1 = db_rows s" "db_seq s1 = db_seq s"
    using lookup_step_fresh [OF assms(1) table_wf_tx [OF assms(2)] assms(4)] by blast
  with assms(2) have wf1: "table_wf s1" by (simp add: table_wf_def)
  obtain s2 where s2: "create_step L (At_insert u) s1 = (Finished (Inr (SuccessResult u)), s2)"
      "faultless s2" "table_wf s2" "db_rows s2 = db_rows s @ [u\<lparr>u_id := db_seq s\<rparr>]"
    using insert_step [OF s1(2) wf1, of L u] assms(3) s1(4,5) by auto
  have "u_username v \<in> u_username ` set (db_rows s2)" using s2(4) assms(5) by simp
  then obtain s3 where "create_step L (At_lookup v) s2 =
      (Finished (Inr (FailureResult (''User with username: '' @ u_username v @ '' already exist.''))), s3)"
      "db_rows s3 = db_rows s2"
    using lookup_step_exists [OF s2(2) table_wf_tx [OF s2(3)]] by blast
  with s1(1) s2(1,4) assms(5) show ?thesis by (simp add: create_step_def)
qed

theorem serial_registrations_witness:
  "\<exists>t. run_schedule demo_lib [0, 0, 1, 1] [At_lookup (User ''ann'' ''h1'' ''s1''), At_lookup (User ''ann'' ''h2'' ''s2'')]
      (demo_db []) =
      ([Finished (Inr (SuccessResult (User ''ann'' ''h1'' ''s1''))),
        Finished (Inr (FailureResult (''User with username: '' @ ''ann'' @ '' already exist.'')))], t) \<and>
    db_rows t = [(User ''ann'' ''h1'' ''s1'')\<lparr>u_id := 1\<rparr>]"
  using serial_registrations [of "demo_db []" "User ''ann'' ''h1'' ''s1''" "User ''ann'' ''h2'' ''s2''" demo_lib]
  by (simp add: demo_db_def table_wf_def faultless_def max_serial_def)

text \<open>
  C37: the check for an existing name does not protect against a concurrent registration: with both
  lookups before both insertions, two registrations of one new name both succeed and the table holds
  the name twice, with no fault anywhere. (The table has no \<open>UNIQUE\<close> constraint on the name.)
\<close>

theorem racing_registrations_duplicate:
  assumes "faultless s" and "table_wf s" and "db_seq s < max_serial"
    and "u_username u \<notin> u_username ` set (db_rows s)" and "u_username v = u_username u"
  shows "\<exists>t. run_schedule L [0, 1, 0, 1] [At_lookup u, At_lookup v] s =
      ([Finished (Inr (SuccessResult u)), Finished (Inr (SuccessResult v))], t) \<and>
    db_rows t = db_rows s @ [u\<lparr>u_id := db_seq s\<rparr>, v\<lparr>u_id := db_seq s + 1\<rparr>] \<and>
    \<not> distinct (map u_username (db_rows t))"
proof -
  obtain s1 where s1: "create_step L (At_lookup u) s = (At_insert u, s1)" "faultless s1" "db_tx s1 = None"
      "db_rows s1 = db_rows s" "db_seq s1 = db_seq s"
    using lookup_step_fresh [OF assms(1) table_wf_tx [OF assms(2)] assms(4)] by blast
  have "u_username v \<notin> u_username ` set (db_rows s1)" using assms(4,5) s1(4) by simp
  then obtain s2 where s2: "create_step L (At_lookup v) s1 = (At_insert v, s2)" "faultless s2" "db_tx s2 = None"
      "db_rows s2 = db_rows s" "db_seq s2 = db_seq s"
    using lookup_step_fresh [OF s1(2,3)] s1(4,5) by metis
  with assms(2) have wf2: "table_wf s2" by (simp add: table_wf_def)
  obtain s3 where s3: "create_step L (At_insert u) s2 = (Finished (Inr (SuccessResult u)), s3)"
      "faultless s3" "table_wf s3" "db_seq s3 = db_seq s + 1" "db_rows s3 = db_rows s @ [u\<lparr>u_id := db_seq s\<rparr>]"
    using insert_step [OF s2(2) wf2, of L u] assms(3) s2(4,5) by auto
  obtain s4 where s4: "create_step L (At_insert v) s3 = (Finished (Inr (SuccessResult v)), s4)"
      "db_rows s4 = db_rows s @ [u\<lparr>u_id := db_seq s\<rparr>, v\<lparr>u_id := db_seq s + 1\<rparr>]"
    using insert_step [OF s3(2,3), of L v] assms(3) s3(4,5) by auto
  from s1(1) s2(1) s3(1) s4 assms(5) show ?thesis by simp
qed

theorem racing_registrations_duplicate_witness:
  "\<exists>t. run_schedule demo_lib [0, 1, 0, 1] [At_lookup (User ''ann'' ''h1'' ''s1''), At_lookup (User ''ann'' ''h2'' ''s2'')]
      (demo_db []) =
      ([Finished (Inr (SuccessResult (User ''ann'' ''h1'' ''s1''))),
        Finished (Inr (SuccessResult (User ''ann'' ''h2'' ''s2'')))], t) \<and>
    \<not> distinct (map u_username (db_rows t))"
proof -
  have h: "faultless (demo_db [])" "table_wf (demo_db [])" "db_seq (demo_db []) < max_serial"
    "u_username (User ''ann'' ''h1'' ''s1'') \<notin> u_username ` set (db_rows (demo_db []))"
    "u_username (User ''ann'' ''h2'' ''s2'') = u_username (User ''ann'' ''h1'' ''s1'')"
    by (simp_all add: demo_db_def table_wf_def faultless_def max_serial_def)
  from racing_registrations_duplicate [OF h, of demo_lib] show ?thesis by blast
qed



text \<open>A table with the user \<open>ann\<close>, and the connection lost when the next transaction begins.\<close>

definition ann_db :: dbsys where
  "ann_db = (demo_db [Fault (Connection_lost ''connection lost'')])
     \<lparr>db_rows := [(User ''ann'' ''h1'' ''s1'')\<lparr>u_id := 1\<rparr>], db_seq := 2\<rparr>"


end
