(* ===== verification/OdbUser.thy ===== *)
theory OdbUser
  imports Database
begin

text \<open>
  \<^verbatim>\<open>app/Entities/odb/User-odb.{hxx,cxx,ixx}\<close>, the code ODB generated for \<open>User\<close>: the image a row passes
  through between an object and the server, the arrays of pointers the statements are bound to, and
  the operations of \<open>object_traits_impl<User, id_pgsql>\<close>. Statements are prepared once per connection and
  keep the addresses of the image's buffers; a buffer that is reallocated makes them stale, and the
  version counters decide when they are bound again. What the runtime library does with a buffer, an
  integer or a result row is the record \<open>odb_rt\<close>; the effect of a statement on the table is that of the
  theory \<open>Database\<close>. Version counters are natural numbers: a \<open>std::size_t\<close> would have to be incremented
  \<open>2 ^ 64\<close> times to tell otherwise.
\<close>

section \<open>Images and bindings\<close>

record buffer =
  buf_addr :: nat
  buf_cap :: nat
  buf_bytes :: string

record id_image =
  ii_value :: int
  ii_null :: bool
  ii_version :: nat

record image_type =
  im_id_value :: int
  im_id_null :: bool
  im_username_value :: buffer
  im_username_size :: nat
  im_username_null :: bool
  im_passwordHash_value :: buffer
  im_passwordHash_size :: nat
  im_passwordHash_null :: bool
  im_salt_value :: buffer
  im_salt_size :: nat
  im_salt_null :: bool
  im_version :: nat

datatype statement_kind = Statement_select | Statement_insert | Statement_update

text \<open>
  One entry of the array a statement is bound to: the member of the image its size and null pointers
  point to, and for a text the address and the capacity of the buffer at the time of \<open>bind\<close>.
\<close>

datatype column = Col_id | Col_username | Col_passwordHash | Col_salt

datatype slot = Int_slot column | Text_slot column nat nat

text \<open>
  The runtime: \<open>value_traits<std::string>::set_image\<close> and \<open>set_value\<close>, the same for \<open>int\<close>,
  \<open>buffer::capacity(n)\<close>, and \<open>select_statement::fetch\<close>, which writes a row through the bound array and
  says which columns did not fit.
\<close>

record odb_rt =
  rt_set_string :: "buffer \<Rightarrow> string \<Rightarrow> buffer \<times> nat \<times> bool"
  rt_get_string :: "buffer \<Rightarrow> nat \<Rightarrow> bool \<Rightarrow> string"
  rt_set_int :: "int \<Rightarrow> int \<times> bool"
  rt_get_int :: "int \<Rightarrow> bool \<Rightarrow> int"
  rt_capacity :: "buffer \<Rightarrow> nat \<Rightarrow> buffer"
  rt_fetch :: "slot list \<Rightarrow> user \<Rightarrow> image_type \<Rightarrow> image_type \<times> bool list"

section \<open>The functions on images\<close>

definition tr_id :: "odb_rt \<Rightarrow> id_image \<Rightarrow> int" where
  "tr_id rt i = rt_get_int rt (ii_value i) (ii_null i)"

definition tr_id_of_image :: "odb_rt \<Rightarrow> image_type \<Rightarrow> int" where
  "tr_id_of_image rt i = rt_get_int rt (im_id_value i) (im_id_null i)"

definition tr_grow :: "odb_rt \<Rightarrow> image_type \<Rightarrow> bool list \<Rightarrow> image_type \<times> bool" where
  "tr_grow rt i t =
     (let grew = False;
          (i, grew) = (if t ! 1 then (i\<lparr>im_username_value := rt_capacity rt (im_username_value i) (im_username_size i)\<rparr>, True)
                       else (i, grew));
          (i, grew) = (if t ! 2 then (i\<lparr>im_passwordHash_value := rt_capacity rt (im_passwordHash_value i) (im_passwordHash_size i)\<rparr>, True)
                       else (i, grew));
          (i, grew) = (if t ! 3 then (i\<lparr>im_salt_value := rt_capacity rt (im_salt_value i) (im_salt_size i)\<rparr>, True)
                       else (i, grew))
      in (i, grew))"

definition text_slot :: "column \<Rightarrow> buffer \<Rightarrow> slot" where
  "text_slot c b = Text_slot c (buf_addr b) (buf_cap b)"

definition tr_bind :: "image_type \<Rightarrow> statement_kind \<Rightarrow> slot list" where
  "tr_bind i sk =
     (if sk \<noteq> Statement_insert \<and> sk \<noteq> Statement_update then [Int_slot Col_id] else []) @
     [text_slot Col_username (im_username_value i),
      text_slot Col_passwordHash (im_passwordHash_value i),
      text_slot Col_salt (im_salt_value i)]"

definition tr_bind_id :: "id_image \<Rightarrow> slot list" where
  "tr_bind_id i = [Int_slot Col_id]"

definition tr_init_image :: "odb_rt \<Rightarrow> image_type \<Rightarrow> user \<Rightarrow> statement_kind \<Rightarrow> image_type \<times> bool" where
  "tr_init_image rt i obj sk =
     (let grew = False;
          cap = buf_cap (im_username_value i);
          (b, size, is_null) = rt_set_string rt (im_username_value i) (u_username obj);
          i = i\<lparr>im_username_value := b, im_username_size := size, im_username_null := is_null\<rparr>;
          grew = (grew \<or> cap \<noteq> buf_cap (im_username_value i));
          cap = buf_cap (im_passwordHash_value i);
          (b, size, is_null) = rt_set_string rt (im_passwordHash_value i) (u_passwordHash obj);
          i = i\<lparr>im_passwordHash_value := b, im_passwordHash_size := size, im_passwordHash_null := is_null\<rparr>;
          grew = (grew \<or> cap \<noteq> buf_cap (im_passwordHash_value i));
          cap = buf_cap (im_salt_value i);
          (b, size, is_null) = rt_set_string rt (im_salt_value i) (u_salt obj);
          i = i\<lparr>im_salt_value := b, im_salt_size := size, im_salt_null := is_null\<rparr>;
          grew = (grew \<or> cap \<noteq> buf_cap (im_salt_value i))
      in (i, grew))"

definition tr_init_object :: "odb_rt \<Rightarrow> user \<Rightarrow> image_type \<Rightarrow> user" where
  "tr_init_object rt obj i =
     obj\<lparr>u_id := rt_get_int rt (im_id_value i) (im_id_null i),
       u_username := rt_get_string rt (im_username_value i) (im_username_size i) (im_username_null i),
       u_passwordHash := rt_get_string rt (im_passwordHash_value i) (im_passwordHash_size i) (im_passwordHash_null i),
       u_salt := rt_get_string rt (im_salt_value i) (im_salt_size i) (im_salt_null i)\<rparr>"

definition tr_init_id :: "odb_rt \<Rightarrow> id_image \<Rightarrow> int \<Rightarrow> id_image" where
  "tr_init_id rt i v = (let (v, is_null) = rt_set_int rt v in i\<lparr>ii_value := v, ii_null := is_null\<rparr>)"

section \<open>The statement cache of a connection\<close>

text \<open>
  \<open>object_statements<User>\<close>: the two images, and for each statement the bound array with its version
  and the version of the image it was bound for. The lock says that a load is in progress.
\<close>

record binding =
  bd_slots :: "slot list"
  bd_version :: nat

record object_statements =
  st_image :: image_type
  st_id_image :: id_image
  st_insert :: binding
  st_insert_version :: nat
  st_update :: binding
  st_update_version :: nat
  st_update_id_version :: nat
  st_select :: binding
  st_select_version :: nat
  st_id :: binding
  st_id_version :: nat
  st_locked :: bool
  st_delayed :: "int list"

text \<open>\<open>odb_sent\<close> is history: the texts of the statements the server was asked to execute.\<close>

record odbsys = dbsys +
  odb_sts :: object_statements
  odb_sent :: "string list"

definition rebind :: "slot list \<Rightarrow> binding \<Rightarrow> binding" where
  "rebind sl b = \<lparr>bd_slots = sl, bd_version = Suc (bd_version b)\<rparr>"

text \<open>The blocks \<open>if (im.version != ... || imb.version == 0) { bind(...); ... }\<close> of the operations.\<close>

definition rebind_insert :: "object_statements \<Rightarrow> object_statements" where
  "rebind_insert st =
     (if im_version (st_image st) \<noteq> st_insert_version st \<or> bd_version (st_insert st) = 0
      then st\<lparr>st_insert := rebind (tr_bind (st_image st) Statement_insert) (st_insert st),
              st_insert_version := im_version (st_image st)\<rparr>
      else st)"

definition rebind_select :: "object_statements \<Rightarrow> object_statements" where
  "rebind_select st =
     (if im_version (st_image st) \<noteq> st_select_version st \<or> bd_version (st_select st) = 0
      then st\<lparr>st_select := rebind (tr_bind (st_image st) Statement_select) (st_select st),
              st_select_version := im_version (st_image st)\<rparr>
      else st)"

definition rebind_id :: "object_statements \<Rightarrow> object_statements" where
  "rebind_id st =
     (if ii_version (st_id_image st) \<noteq> st_id_version st \<or> bd_version (st_id st) = 0
      then st\<lparr>st_id := rebind (tr_bind_id (st_id_image st)) (st_id st), st_id_version := ii_version (st_id_image st)\<rparr>
      else st)"

text \<open>\<open>if (init(im, obj, sk)) im.version++;\<close>\<close>

definition load_image :: "odb_rt \<Rightarrow> user \<Rightarrow> statement_kind \<Rightarrow> object_statements \<Rightarrow> object_statements" where
  "load_image rt obj sk st =
     (let (im, grew) = tr_init_image rt (st_image st) obj sk
      in st\<lparr>st_image := if grew then im\<lparr>im_version := Suc (im_version im)\<rparr> else im\<rparr>)"

definition load_id :: "odb_rt \<Rightarrow> int \<Rightarrow> object_statements \<Rightarrow> object_statements" where
  "load_id rt i st = st\<lparr>st_id_image := tr_init_id rt (st_id_image st) i\<rparr>"

section \<open>Statements\<close>

text \<open>
  The texts, and what executing a statement does: it reads its parameters through the bound array,
  and the server does the operation of \<open>Database\<close>. An entry whose address is not that of the buffer any
  more points to memory that has been freed.
\<close>

definition persist_statement :: string where
  "persist_statement = ''INSERT INTO \"User\" (\"id\", \"username\", \"passwordHash\", \"salt\") VALUES (DEFAULT, $1, $2, $3) RETURNING \"id\"''"

definition find_statement :: string where
  "find_statement = ''SELECT \"User\".\"id\", \"User\".\"username\", \"User\".\"passwordHash\", \"User\".\"salt\" FROM \"User\" WHERE \"User\".\"id\"=$1''"

definition update_statement :: string where
  "update_statement = ''UPDATE \"User\" SET \"username\"=$1, \"passwordHash\"=$2, \"salt\"=$3 WHERE \"id\"=$4''"

definition erase_statement :: string where
  "erase_statement = ''DELETE FROM \"User\" WHERE \"id\"=$1''"

definition query_statement :: string where
  "query_statement = ''SELECT \"User\".\"id\", \"User\".\"username\", \"User\".\"passwordHash\", \"User\".\"salt\" FROM \"User\"''"

definition erase_query_statement :: string where
  "erase_query_statement = ''DELETE FROM \"User\"''"

definition dangling :: exn where
  "dangling = Undefined ''a statement bound to a freed buffer''"

definition read_text :: "image_type \<Rightarrow> slot \<Rightarrow> exn + string" where
  "read_text im sl = (case sl of
      Text_slot c a cap \<Rightarrow>
        (let (b, n) = (case c of
             Col_username \<Rightarrow> (im_username_value im, im_username_size im)
           | Col_passwordHash \<Rightarrow> (im_passwordHash_value im, im_passwordHash_size im)
           | _ \<Rightarrow> (im_salt_value im, im_salt_size im))
         in if a = buf_addr b \<and> cap = buf_cap b then Inr (take n (buf_bytes b)) else Inl dangling)
    | Int_slot c \<Rightarrow> Inl dangling)"

text \<open>The three text parameters, from the array at the position of the first of them.\<close>

definition read_params :: "image_type \<Rightarrow> slot list \<Rightarrow> exn + (string \<times> string \<times> string)" where
  "read_params im sl = (case sl of
      [a, b, c] \<Rightarrow>
        (case (read_text im a, read_text im b, read_text im c) of
           (Inr n, Inr h, Inr p) \<Rightarrow> Inr (n, h, p)
         | _ \<Rightarrow> Inl dangling)
    | _ \<Rightarrow> Inl dangling)"

definition get_sts :: "('a odbsys_scheme, object_statements) prog" where
  "get_sts = get odb_sts"

definition upd_sts :: "(object_statements \<Rightarrow> object_statements) \<Rightarrow> ('a odbsys_scheme, unit) prog" where
  "upd_sts f = modify (\<lambda>s. s\<lparr>odb_sts := f (odb_sts s)\<rparr>)"

definition send :: "string \<Rightarrow> ('a odbsys_scheme, unit) prog" where
  "send text = modify (\<lambda>s. s\<lparr>odb_sent := odb_sent s @ [text]\<rparr>)"

text \<open>\<open>pgsql::transaction::current()\<close> throws outside a transaction.\<close>

definition current :: "('a dbsys_scheme, unit) prog" where
  "current = seq (get db_tx) (\<lambda>tx. case tx of
      None \<Rightarrow> throw (Odb_exception ''operation can only be performed in transaction'')
    | Some _ \<Rightarrow> ret ())"

text \<open>\<open>insert_statement::execute\<close> writes the returned id into the id image, in the form of the server.\<close>

definition execute_insert :: "odb_rt \<Rightarrow> ('a odbsys_scheme, bool) prog" where
  "execute_insert rt =
     seq get_sts (\<lambda>st.
     seq (call (read_params (st_image st) (bd_slots (st_insert st)))) (\<lambda>(n, h, p).
     seq (send persist_statement) (\<lambda>_.
     seq (sql_insert \<lparr>u_id = 0, u_username = n, u_passwordHash = h, u_salt = p\<rparr>) (\<lambda>i.
     case i of
       None \<Rightarrow> ret False
     | Some i \<Rightarrow> seq (upd_sts (load_id rt i)) (\<lambda>_. ret True)))))"

definition execute_update :: "odb_rt \<Rightarrow> ('a odbsys_scheme, nat) prog" where
  "execute_update rt =
     seq get_sts (\<lambda>st.
     if bd_slots (st_id st) \<noteq> [Int_slot Col_id] then throw dangling
     else
       seq (call (read_params (st_image st) (bd_slots (st_update st)))) (\<lambda>(n, h, p).
       seq (send update_statement) (\<lambda>_.
       sql_update \<lparr>u_id = tr_id rt (st_id_image st), u_username = n, u_passwordHash = h, u_salt = p\<rparr>)))"

definition execute_erase :: "odb_rt \<Rightarrow> ('a odbsys_scheme, nat) prog" where
  "execute_erase rt =
     seq get_sts (\<lambda>st.
     if bd_slots (st_id st) \<noteq> [Int_slot Col_id] then throw dangling
     else seq (send erase_statement) (\<lambda>_. sql_delete (\<lambda>r. u_id r = tr_id rt (st_id_image st))))"

definition execute_find :: "odb_rt \<Rightarrow> ('a odbsys_scheme, user list) prog" where
  "execute_find rt =
     seq get_sts (\<lambda>st.
     if bd_slots (st_id st) \<noteq> [Int_slot Col_id] then throw dangling
     else seq (send find_statement) (\<lambda>_. sql_select (\<lambda>r. u_id r = tr_id rt (st_id_image st))))"

section \<open>The operations\<close>

text \<open>
  The inline functions of \<^verbatim>\<open>User-odb.ixx\<close>. \<open>User\<close> has no callbacks and no containers: both overloads of
  \<open>callback\<close>, the second for a constant object, and \<open>load_\<close> do nothing.
\<close>

datatype callback_event = Pre_persist | Post_persist | Pre_load | Post_load | Pre_update | Post_update | Pre_erase | Post_erase

definition tr_id_of_object :: "user \<Rightarrow> int" where
  "tr_id_of_object obj = u_id obj"

definition tr_callback :: "user \<Rightarrow> callback_event \<Rightarrow> ('s, user) prog" where
  "tr_callback x e = ret x"

definition tr_callback_const :: "user \<Rightarrow> callback_event \<Rightarrow> ('s, unit) prog" where
  "tr_callback_const x e = ret ()"

definition tr_load_containers :: "user \<Rightarrow> bool \<Rightarrow> ('s, user) prog" where
  "tr_load_containers obj reload = ret obj"

lemmas no_callbacks = tr_callback_def tr_callback_const_def tr_load_containers_def tr_id_of_object_def

definition tr_persist :: "odb_rt \<Rightarrow> user \<Rightarrow> ('a odbsys_scheme, user) prog" where
  "tr_persist rt obj =
     seq current (\<lambda>_.
     seq (tr_callback_const obj Pre_persist) (\<lambda>_.
     seq (upd_sts (load_image rt obj Statement_insert)) (\<lambda>_.
     seq (upd_sts rebind_insert) (\<lambda>_.
     seq (upd_sts rebind_id) (\<lambda>_.
     seq (execute_insert rt) (\<lambda>ok.
     if \<not> ok then throw (Odb_exception ''object already persistent'')
     else seq get_sts (\<lambda>st.
          let obj = obj\<lparr>u_id := tr_id rt (st_id_image st)\<rparr> in
          seq (tr_callback_const obj Post_persist) (\<lambda>_. ret obj))))))))"

lemma tr_persist_eq:
  "tr_persist rt obj =
     seq current (\<lambda>_.
     seq (upd_sts (load_image rt obj Statement_insert)) (\<lambda>_.
     seq (upd_sts rebind_insert) (\<lambda>_.
     seq (upd_sts rebind_id) (\<lambda>_.
     seq (execute_insert rt) (\<lambda>ok.
     if \<not> ok then throw (Odb_exception ''object already persistent'')
     else seq get_sts (\<lambda>st. ret (obj\<lparr>u_id := tr_id rt (st_id_image st)\<rparr>)))))))"
  unfolding tr_persist_def no_callbacks Let_def seq_ret ..

definition rebind_update :: "object_statements \<Rightarrow> object_statements" where
  "rebind_update st =
     (let (st, u) =
        (if im_version (st_image st) \<noteq> st_update_version st \<or> bd_version (st_update st) = 0
         then (st\<lparr>st_update := rebind (tr_bind (st_image st) Statement_update) (st_update st),
                 st_update_version := im_version (st_image st)\<rparr>, True)
         else (st, False))
      in if ii_version (st_id_image st) \<noteq> st_update_id_version st \<or> bd_version (st_id st) = 0
         then (let st = rebind_id st;
                   st = st\<lparr>st_update_id_version := ii_version (st_id_image st)\<rparr>
               in if \<not> u then st\<lparr>st_update := (st_update st)\<lparr>bd_version := Suc (bd_version (st_update st))\<rparr>\<rparr> else st)
         else st)"

definition tr_update :: "odb_rt \<Rightarrow> user \<Rightarrow> ('a odbsys_scheme, unit) prog" where
  "tr_update rt obj =
     seq (tr_callback_const obj Pre_update) (\<lambda>_.
     seq current (\<lambda>_.
     seq (upd_sts (load_id rt (u_id obj))) (\<lambda>_.
     seq (upd_sts (load_image rt obj Statement_update)) (\<lambda>_.
     seq (upd_sts rebind_update) (\<lambda>_.
     seq (execute_update rt) (\<lambda>n.
     if n = 0 then throw (Odb_exception ''object not persistent'')
     else tr_callback_const obj Post_update))))))"

lemma tr_update_eq:
  "tr_update rt obj =
     seq current (\<lambda>_.
     seq (upd_sts (load_id rt (u_id obj))) (\<lambda>_.
     seq (upd_sts (load_image rt obj Statement_update)) (\<lambda>_.
     seq (upd_sts rebind_update) (\<lambda>_.
     seq (execute_update rt) (\<lambda>n.
     if n = 0 then throw (Odb_exception ''object not persistent'') else ret ())))))"
  unfolding tr_update_def no_callbacks seq_ret ..

definition tr_erase :: "odb_rt \<Rightarrow> int \<Rightarrow> ('a odbsys_scheme, unit) prog" where
  "tr_erase rt i =
     seq current (\<lambda>_.
     seq (upd_sts (load_id rt i)) (\<lambda>_.
     seq (upd_sts rebind_id) (\<lambda>_.
     seq (execute_erase rt) (\<lambda>n.
     if n \<noteq> 1 then throw (Odb_exception ''object not persistent'') else ret ()))))"

definition tr_erase_object :: "odb_rt \<Rightarrow> user \<Rightarrow> ('a odbsys_scheme, unit) prog" where
  "tr_erase_object rt obj =
     seq (tr_callback_const obj Pre_erase) (\<lambda>_.
     seq (tr_erase rt (tr_id_of_object obj)) (\<lambda>_.
     tr_callback_const obj Post_erase))"

lemma tr_erase_object_eq: "tr_erase_object rt obj = tr_erase rt (u_id obj)"
  by (rule ext) (simp add: tr_erase_object_def no_callbacks seq_def ret_def split: prod.split sum.split)

text \<open>
  \<open>find_\<close>: fetch the row into the image; if a column did not fit, grow its buffer, bind again and fetch
  once more.
\<close>

definition refetch :: "odb_rt \<Rightarrow> user \<Rightarrow> bool list \<Rightarrow> object_statements \<Rightarrow> object_statements" where
  "refetch rt row t st =
     (let (im, grew) = tr_grow rt (st_image st) t;
          st = st\<lparr>st_image := if grew then im\<lparr>im_version := Suc (im_version im)\<rparr> else im\<rparr>
      in if im_version (st_image st) \<noteq> st_select_version st
         then (let st = st\<lparr>st_select := rebind (tr_bind (st_image st) Statement_select) (st_select st),
                          st_select_version := im_version (st_image st)\<rparr>
               in st\<lparr>st_image := fst (rt_fetch rt (bd_slots (st_select st)) row (st_image st))\<rparr>)
         else st)"

definition fetch_row :: "odb_rt \<Rightarrow> user \<Rightarrow> object_statements \<Rightarrow> object_statements" where
  "fetch_row rt row st =
     (let (im, t) = rt_fetch rt (bd_slots (st_select st)) row (st_image st);
          st = st\<lparr>st_image := im\<rparr>
      in if True \<in> set t then refetch rt row t st else st)"

definition tr_find_row :: "odb_rt \<Rightarrow> int \<Rightarrow> ('a odbsys_scheme, bool) prog" where
  "tr_find_row rt i =
     seq (upd_sts (load_id rt i)) (\<lambda>_.
     seq (upd_sts rebind_id) (\<lambda>_.
     seq (upd_sts rebind_select) (\<lambda>_.
     seq (execute_find rt) (\<lambda>rows.
     case rows of
       [] \<Rightarrow> ret False
     | row # _ \<Rightarrow> seq (upd_sts (fetch_row rt row)) (\<lambda>_. ret True)))))"

text \<open>
  \<open>statements_type::auto_lock l(sts)\<close> takes the lock unless it is held already, and gives it back at the
  end of the scope if it was taken here and not released before.
\<close>

definition with_lock :: "(bool \<Rightarrow> ('a odbsys_scheme, 'b) prog) \<Rightarrow> ('a odbsys_scheme, 'b) prog" where
  "with_lock body =
     seq get_sts (\<lambda>st.
     if st_locked st then body False
     else seq (upd_sts (\<lambda>st. st\<lparr>st_locked := True\<rparr>)) (\<lambda>_.
          at_exit (body True) (\<lambda>s. s\<lparr>odb_sts := (odb_sts s)\<lparr>st_locked := False\<rparr>\<rparr>)))"

definition new_object :: user where
  "new_object = \<lparr>u_id = 0, u_username = [], u_passwordHash = [], u_salt = []\<rparr>"

definition init_from_image :: "odb_rt \<Rightarrow> user \<Rightarrow> ('a odbsys_scheme, user) prog" where
  "init_from_image rt obj = seq get_sts (\<lambda>st. ret (tr_init_object rt obj (st_image st)))"

text \<open>The fetched image becomes the object, between the two callbacks.\<close>

definition load_object :: "odb_rt \<Rightarrow> user \<Rightarrow> bool \<Rightarrow> ('a odbsys_scheme, user) prog" where
  "load_object rt obj reload =
     seq (tr_callback obj Pre_load) (\<lambda>obj.
     seq (init_from_image rt obj) (\<lambda>obj.
     seq (tr_load_containers obj reload) (\<lambda>obj.
     tr_callback obj Post_load)))"

lemma load_object_eq: "load_object rt obj reload = init_from_image rt obj"
  by (rule ext) (simp add: load_object_def no_callbacks seq_def ret_def split: prod.split sum.split)

definition tr_find :: "odb_rt \<Rightarrow> int \<Rightarrow> ('a odbsys_scheme, user option) prog" where
  "tr_find rt i =
     seq current (\<lambda>_.
     with_lock (\<lambda>locked.
       seq (if locked then tr_find_row rt i else ret True) (\<lambda>found.
       if \<not> found then ret None
       else if locked then seq (load_object rt new_object False) (\<lambda>obj. ret (Some obj))
       else seq (upd_sts (\<lambda>st. st\<lparr>st_delayed := st_delayed st @ [i]\<rparr>)) (\<lambda>_. ret (Some new_object)))))"

text \<open>\<open>find\<close> and \<open>reload\<close> into an object of the caller; \<open>None\<close> stands for the result \<open>false\<close>.\<close>

definition tr_find_into :: "odb_rt \<Rightarrow> int \<Rightarrow> user \<Rightarrow> ('a odbsys_scheme, user option) prog" where
  "tr_find_into rt i obj =
     seq current (\<lambda>_.
     with_lock (\<lambda>locked.
       seq (tr_find_row rt i) (\<lambda>found.
       if \<not> found then ret None
       else seq (load_object rt obj False) (\<lambda>obj. ret (Some obj)))))"

definition tr_reload :: "odb_rt \<Rightarrow> user \<Rightarrow> ('a odbsys_scheme, user option) prog" where
  "tr_reload rt obj =
     seq current (\<lambda>_.
     with_lock (\<lambda>locked.
       seq (tr_find_row rt (u_id obj)) (\<lambda>found.
       if \<not> found then ret None
       else seq (load_object rt obj True) (\<lambda>obj. ret (Some obj)))))"

lemma tr_find_eq:
  "tr_find rt i =
     seq current (\<lambda>_.
     with_lock (\<lambda>locked.
       seq (if locked then tr_find_row rt i else ret True) (\<lambda>found.
       if \<not> found then ret None
       else if locked then seq (init_from_image rt new_object) (\<lambda>obj. ret (Some obj))
       else seq (upd_sts (\<lambda>st. st\<lparr>st_delayed := st_delayed st @ [i]\<rparr>)) (\<lambda>_. ret (Some new_object)))))"
  unfolding tr_find_def load_object_eq ..

lemma tr_find_into_eq:
  "tr_find_into rt i obj =
     seq current (\<lambda>_.
     with_lock (\<lambda>locked.
       seq (tr_find_row rt i) (\<lambda>found.
       if \<not> found then ret None
       else seq (init_from_image rt obj) (\<lambda>obj. ret (Some obj)))))"
  unfolding tr_find_into_def load_object_eq ..

lemma tr_reload_eq:
  "tr_reload rt obj =
     seq current (\<lambda>_.
     with_lock (\<lambda>locked.
       seq (tr_find_row rt (u_id obj)) (\<lambda>found.
       if \<not> found then ret None
       else seq (init_from_image rt obj) (\<lambda>obj. ret (Some obj)))))"
  unfolding tr_reload_def load_object_eq ..

text \<open>
  A query: the text of its \<open>WHERE\<close> clause, with placeholders for the parameters, and what it means for
  a row. The rows are read through the runtime's result object, which is not modelled.
\<close>

record odb_query =
  q_clause :: string
  q_holds :: "user \<Rightarrow> bool"

definition query_text :: "odb_query \<Rightarrow> string" where
  "query_text q =
     (let text = query_statement in if q_clause q \<noteq> [] then (text @ '' '') @ q_clause q else text)"

definition tr_query :: "odb_query \<Rightarrow> ('a odbsys_scheme, user list) prog" where
  "tr_query q =
     seq current (\<lambda>_.
     seq (upd_sts rebind_select) (\<lambda>_.
     seq (send (query_text q)) (\<lambda>_.
     sql_select (q_holds q))))"

definition tr_erase_query :: "odb_query \<Rightarrow> ('a odbsys_scheme, nat) prog" where
  "tr_erase_query q =
     seq current (\<lambda>_.
     seq (send (let text = erase_query_statement in if q_clause q \<noteq> [] then (text @ '' '') @ q_clause q else text)) (\<lambda>_.
     sql_delete (q_holds q)))"

section \<open>Bindings are never stale\<close>

text \<open>What the runtime library promises.\<close>

definition same_place :: "buffer \<Rightarrow> buffer \<Rightarrow> bool" where
  "same_place b c \<longleftrightarrow> buf_addr b = buf_addr c \<and> buf_cap b = buf_cap c"

definition string_laws :: "odb_rt \<Rightarrow> bool" where
  "string_laws rt \<longleftrightarrow>
     (\<forall>b v. \<exists>c. rt_set_string rt b v = (c, length v, False) \<and> take (length v) (buf_bytes c) = v \<and>
        (buf_cap c = buf_cap b \<longrightarrow> buf_addr c = buf_addr b)) \<and>
     (\<forall>b n. rt_get_string rt b n False = take n (buf_bytes b))"

definition int_laws :: "odb_rt \<Rightarrow> bool" where
  "int_laws rt \<longleftrightarrow> (\<forall>i. \<exists>v. rt_set_int rt i = (v, False) \<and> rt_get_int rt v False = i)"

text \<open>A fetched column: its size is that of the value; it is there if it fitted.\<close>

definition fetched :: "buffer \<Rightarrow> string \<Rightarrow> buffer \<Rightarrow> nat \<Rightarrow> bool \<Rightarrow> bool \<Rightarrow> bool" where
  "fetched b v c n is_null trunc \<longleftrightarrow> same_place b c \<and> n = length v \<and> \<not> is_null \<and> (trunc \<longleftrightarrow> buf_cap b < length v) \<and>
     (\<not> trunc \<longrightarrow> take n (buf_bytes c) = v)"

text \<open>One fetch through an array bound to the buffers as they are: the outcome, column by column.\<close>

definition fetched_row :: "odb_rt \<Rightarrow> image_type \<Rightarrow> user \<Rightarrow> image_type \<Rightarrow> bool list \<Rightarrow> bool" where
  "fetched_row rt im row im' t \<longleftrightarrow> (\<exists>t1 t2 t3. t = [False, t1, t2, t3] \<and>
     im_version im' = im_version im \<and> im_id_value im' = fst (rt_set_int rt (u_id row)) \<and> \<not> im_id_null im' \<and>
     fetched (im_username_value im) (u_username row) (im_username_value im') (im_username_size im') (im_username_null im') t1 \<and>
     fetched (im_passwordHash_value im) (u_passwordHash row) (im_passwordHash_value im') (im_passwordHash_size im')
       (im_passwordHash_null im') t2 \<and>
     fetched (im_salt_value im) (u_salt row) (im_salt_value im') (im_salt_size im') (im_salt_null im') t3)"

definition fetch_laws :: "odb_rt \<Rightarrow> bool" where
  "fetch_laws rt \<longleftrightarrow>
     (\<forall>im row. \<exists>im' t. rt_fetch rt (tr_bind im Statement_select) row im = (im', t) \<and> fetched_row rt im row im' t) \<and>
     (\<forall>b n. n \<le> buf_cap (rt_capacity rt b n))"

definition rt_laws :: "odb_rt \<Rightarrow> bool" where
  "rt_laws rt \<longleftrightarrow> string_laws rt \<and> int_laws rt \<and> fetch_laws rt"

text \<open>
  A statement whose recorded image version is current and that was bound at all is bound to the
  buffers as they are.
\<close>

definition fresh :: "nat \<Rightarrow> nat \<Rightarrow> binding \<Rightarrow> slot list \<Rightarrow> bool" where
  "fresh image_version bound_version b sl \<longleftrightarrow> bound_version \<le> image_version \<and>
     (image_version = bound_version \<and> bd_version b \<noteq> 0 \<longrightarrow> bd_slots b = sl)"

definition coherent :: "object_statements \<Rightarrow> bool" where
  "coherent st \<longleftrightarrow> \<not> st_locked st \<and> st_delayed st = [] \<and>
     fresh (im_version (st_image st)) (st_insert_version st) (st_insert st) (tr_bind (st_image st) Statement_insert) \<and>
     fresh (im_version (st_image st)) (st_update_version st) (st_update st) (tr_bind (st_image st) Statement_update) \<and>
     fresh (im_version (st_image st)) (st_select_version st) (st_select st) (tr_bind (st_image st) Statement_select) \<and>
     (bd_version (st_id st) \<noteq> 0 \<longrightarrow> bd_slots (st_id st) = [Int_slot Col_id])"

end
