(* ===== verification/OdbUserCorrect.thy ===== *)
theory OdbUserCorrect
  imports OdbUser
begin

text \<open>
  The generated operations of \<open>OdbUser\<close> implement the object operations of \<open>Database\<close>: with a runtime
  library that keeps its promises, from a coherent statement cache each ends with the same result and
  the same table, leaves a coherent cache, reads no freed buffer, and sends only the fixed texts.
\<close>

section \<open>The cache\<close>

definition coh :: "object_statements \<Rightarrow> bool" where
  "coh st \<longleftrightarrow>
     fresh (im_version (st_image st)) (st_insert_version st) (st_insert st) (tr_bind (st_image st) Statement_insert) \<and>
     fresh (im_version (st_image st)) (st_update_version st) (st_update st) (tr_bind (st_image st) Statement_update) \<and>
     fresh (im_version (st_image st)) (st_select_version st) (st_select st) (tr_bind (st_image st) Statement_select) \<and>
     (bd_version (st_id st) \<noteq> 0 \<longrightarrow> bd_slots (st_id st) = [Int_slot Col_id])"

lemma coherent_coh: "coherent st \<longleftrightarrow> \<not> st_locked st \<and> st_delayed st = [] \<and> coh st"
  by (auto simp: coherent_def coh_def)

text \<open>What \<open>bind\<close> sees of an image, and what a statement reads from it.\<close>

definition same_buffers :: "image_type \<Rightarrow> image_type \<Rightarrow> bool" where
  "same_buffers i j \<longleftrightarrow> same_place (im_username_value i) (im_username_value j) \<and>
     same_place (im_passwordHash_value i) (im_passwordHash_value j) \<and> same_place (im_salt_value i) (im_salt_value j)"

lemma tr_bind_same: "same_buffers i j \<Longrightarrow> tr_bind i sk = tr_bind j sk"
  by (simp add: tr_bind_def text_slot_def same_buffers_def same_place_def)

definition image_holds :: "image_type \<Rightarrow> user \<Rightarrow> bool" where
  "image_holds i u \<longleftrightarrow>
     take (im_username_size i) (buf_bytes (im_username_value i)) = u_username u \<and>
     take (im_passwordHash_size i) (buf_bytes (im_passwordHash_value i)) = u_passwordHash u \<and>
     take (im_salt_size i) (buf_bytes (im_salt_value i)) = u_salt u"

lemma read_params_bound:
  assumes "image_holds im u" and "sk \<noteq> Statement_select"
  shows "read_params im (tr_bind im sk) = Inr (u_username u, u_passwordHash u, u_salt u)"
  using assms by (cases sk) (simp_all add: read_params_def read_text_def tr_bind_def text_slot_def image_holds_def)

lemma init_image:
  assumes "string_laws rt" and "tr_init_image rt i u sk = (j, grew)"
  shows "image_holds j u \<and> im_version j = im_version i \<and> (\<not> grew \<longrightarrow> same_buffers j i)"
proof -
  note law = conjunct1 [OF assms(1) [unfolded string_laws_def]]
  from law obtain a where a: "rt_set_string rt (im_username_value i) (u_username u) = (a, length (u_username u), False)"
    "take (length (u_username u)) (buf_bytes a) = u_username u"
    "buf_cap a = buf_cap (im_username_value i) \<longrightarrow> buf_addr a = buf_addr (im_username_value i)" by meson
  from law obtain b where b: "rt_set_string rt (im_passwordHash_value i) (u_passwordHash u) = (b, length (u_passwordHash u), False)"
    "take (length (u_passwordHash u)) (buf_bytes b) = u_passwordHash u"
    "buf_cap b = buf_cap (im_passwordHash_value i) \<longrightarrow> buf_addr b = buf_addr (im_passwordHash_value i)" by meson
  from law obtain c where c: "rt_set_string rt (im_salt_value i) (u_salt u) = (c, length (u_salt u), False)"
    "take (length (u_salt u)) (buf_bytes c) = u_salt u"
    "buf_cap c = buf_cap (im_salt_value i) \<longrightarrow> buf_addr c = buf_addr (im_salt_value i)" by meson
  from assms(2) a b c show ?thesis
    by (simp add: tr_init_image_def Let_def image_holds_def same_buffers_def same_place_def) (elim conjE; hypsubst; simp)
qed

lemma coh_image:
  assumes "coh st" and "same_buffers im (st_image st)" and "im_version im = im_version (st_image st)"
  shows "coh (st\<lparr>st_image := im\<rparr>)"
  using assms tr_bind_same [OF assms(2)] by (simp add: coh_def)

lemma coh_stale:
  assumes "coh st" and "im_version im = im_version (st_image st)"
  shows "coh (st\<lparr>st_image := im\<lparr>im_version := Suc (im_version im)\<rparr>\<rparr>)"
  using assms by (auto simp: coh_def fresh_def)

lemma load_image_coh:
  assumes "string_laws rt" and "coh st"
  shows "coh (load_image rt u sk st) \<and> image_holds (st_image (load_image rt u sk st)) u \<and>
    st_locked (load_image rt u sk st) = st_locked st \<and> st_delayed (load_image rt u sk st) = st_delayed st \<and>
    st_id_image (load_image rt u sk st) = st_id_image st"
proof -
  obtain j grew where j: "tr_init_image rt (st_image st) u sk = (j, grew)" by fastforce
  note i = init_image [OF assms(1) j]
  show ?thesis
    using i j coh_image [OF assms(2), of j] coh_stale [OF assms(2), of j]
    by (auto simp: load_image_def image_holds_def)
qed

lemma rebind_insert_coh:
  assumes "coh st"
  shows "coh (rebind_insert st) \<and> st_image (rebind_insert st) = st_image st \<and> st_id_image (rebind_insert st) = st_id_image st \<and>
    st_locked (rebind_insert st) = st_locked st \<and> st_delayed (rebind_insert st) = st_delayed st \<and>
    bd_slots (st_insert (rebind_insert st)) = tr_bind (st_image st) Statement_insert"
  using assms by (auto simp: rebind_insert_def coh_def fresh_def rebind_def)

lemma rebind_select_coh:
  assumes "coh st"
  shows "coh (rebind_select st) \<and> st_image (rebind_select st) = st_image st \<and> st_id_image (rebind_select st) = st_id_image st \<and>
    st_locked (rebind_select st) = st_locked st \<and> st_delayed (rebind_select st) = st_delayed st \<and>
    bd_slots (st_select (rebind_select st)) = tr_bind (st_image st) Statement_select \<and>
    st_select_version (rebind_select st) = im_version (st_image st) \<and> st_id (rebind_select st) = st_id st"
  using assms by (auto simp: rebind_select_def coh_def fresh_def rebind_def)

lemma rebind_id_coh:
  assumes "coh st"
  shows "coh (rebind_id st) \<and> st_image (rebind_id st) = st_image st \<and> st_id_image (rebind_id st) = st_id_image st \<and>
    st_locked (rebind_id st) = st_locked st \<and> st_delayed (rebind_id st) = st_delayed st \<and>
    bd_slots (st_id (rebind_id st)) = [Int_slot Col_id] \<and> st_insert (rebind_id st) = st_insert st"
  using assms by (auto simp: rebind_id_def coh_def rebind_def tr_bind_id_def)

lemma rebind_update_coh:
  assumes "coh st"
  shows "coh (rebind_update st) \<and> st_image (rebind_update st) = st_image st \<and> st_id_image (rebind_update st) = st_id_image st \<and>
    st_locked (rebind_update st) = st_locked st \<and> st_delayed (rebind_update st) = st_delayed st \<and>
    bd_slots (st_update (rebind_update st)) = tr_bind (st_image st) Statement_update \<and>
    bd_slots (st_id (rebind_update st)) = [Int_slot Col_id]"
  using assms by (auto simp: rebind_update_def rebind_id_def coh_def fresh_def rebind_def tr_bind_id_def Let_def)

lemma load_id_coh:
  "coh (load_id rt i st) = coh st \<and> st_image (load_id rt i st) = st_image st \<and>
   st_locked (load_id rt i st) = st_locked st \<and> st_delayed (load_id rt i st) = st_delayed st"
  by (simp add: load_id_def coh_def)

lemma load_id_value: "int_laws rt \<Longrightarrow> tr_id rt (st_id_image (load_id rt i st)) = i"
  unfolding int_laws_def load_id_def tr_id_def tr_init_id_def
  by (auto split: prod.split) (metis Pair_inject)

section \<open>Fetching a row\<close>

text \<open>The image holds the row: this is what \<open>init(obj, image)\<close> makes of it, whatever the object held.\<close>

definition image_row :: "odb_rt \<Rightarrow> image_type \<Rightarrow> user \<Rightarrow> bool" where
  "image_row rt im row \<longleftrightarrow> (\<forall>obj. tr_init_object rt obj im = row)"

lemma fetch_bound:
  assumes "fetch_laws rt"
  obtains im' t where "rt_fetch rt (tr_bind im Statement_select) row im = (im', t)" and "fetched_row rt im row im' t"
  using assms unfolding fetch_laws_def by metis

lemma fetched_row_buffers: "fetched_row rt im row im' t \<Longrightarrow> same_buffers im' im \<and> im_version im' = im_version im"
  by (auto simp: fetched_row_def fetched_def same_buffers_def same_place_def)

lemma fetched_row_whole:
  assumes "string_laws rt" and "int_laws rt" and "fetched_row rt im row im' t" and "True \<notin> set t"
  shows "image_row rt im' row"
proof -
  have int: "rt_get_int rt (fst (rt_set_int rt i)) False = i" for i
    using assms(2) unfolding int_laws_def by (metis fst_conv)
  have str: "rt_get_string rt b n False = take n (buf_bytes b)" for b n
    using assms(1) by (simp add: string_laws_def)
  from assms(3,4) show ?thesis
    by (auto simp: image_row_def tr_init_object_def fetched_row_def fetched_def int str)
qed

text \<open>A buffer that was grown holds the value; one that was not had room for it.\<close>

definition room :: "image_type \<Rightarrow> user \<Rightarrow> bool" where
  "room im row \<longleftrightarrow> length (u_username row) \<le> buf_cap (im_username_value im) \<and>
     length (u_passwordHash row) \<le> buf_cap (im_passwordHash_value im) \<and> length (u_salt row) \<le> buf_cap (im_salt_value im)"

lemma room_fits: "fetched_row rt im row im' t \<Longrightarrow> room im row \<Longrightarrow> True \<notin> set t"
  by (auto simp: fetched_row_def fetched_def room_def)

lemma grow_room:
  assumes "fetch_laws rt" and "fetched_row rt im row im' t" and "True \<in> set t"
  obtains g where "tr_grow rt im' t = (g, True)" and "room g row" and "im_version g = im_version im"
proof -
  have cap: "n \<le> buf_cap (rt_capacity rt b n)" for b n
    using assms(1) by (simp add: fetch_laws_def)
  obtain g grew where g: "tr_grow rt im' t = (g, grew)" by fastforce
  from assms(2,3) g cap have "grew \<and> room g row \<and> im_version g = im_version im"
    by (auto simp: fetched_row_def fetched_def same_place_def tr_grow_def Let_def room_def split: if_splits)
  with g that show thesis by auto
qed

lemma fits_room: "fetched_row rt im row im' t \<Longrightarrow> True \<notin> set t \<Longrightarrow> room im' row"
  by (auto simp: fetched_row_def fetched_def room_def same_place_def not_less)

lemma fetch_row_loads:
  assumes laws: "rt_laws rt" and coh: "coh st" and bound: "bd_slots (st_select st) = tr_bind (st_image st) Statement_select"
    and version: "st_select_version st = im_version (st_image st)"
  shows "coh (fetch_row rt row st) \<and> image_row rt (st_image (fetch_row rt row st)) row \<and>
    room (st_image (fetch_row rt row st)) row \<and> st_locked (fetch_row rt row st) = st_locked st \<and> st_delayed (fetch_row rt row st) = st_delayed st"
proof -
  from laws have l: "string_laws rt" "int_laws rt" "fetch_laws rt" by (simp_all add: rt_laws_def)
  obtain im t where f: "rt_fetch rt (tr_bind (st_image st) Statement_select) row (st_image st) = (im, t)"
      and fr: "fetched_row rt (st_image st) row im t"
    using fetch_bound [OF l(3)] by metis
  note same = fetched_row_buffers [OF fr]
  show ?thesis
  proof (cases "True \<in> set t")
    case False
    with fetched_row_whole [OF l(1,2) fr] fits_room [OF fr] coh_image [OF coh, of im] same show ?thesis
      by (simp add: fetch_row_def bound f Let_def)
  next
    case True
    obtain g where g: "tr_grow rt im t = (g, True)" "room g row" "im_version g = im_version (st_image st)"
      using grow_room [OF l(3) fr True] by metis
    define h where "h = g\<lparr>im_version := Suc (im_version g)\<rparr>"
    define st1 where "st1 = st\<lparr>st_image := h, st_select := rebind (tr_bind h Statement_select) (st_select st),
      st_select_version := im_version h\<rparr>"
    obtain k t2 where k: "rt_fetch rt (tr_bind h Statement_select) row h = (k, t2)" and kr: "fetched_row rt h row k t2"
      using fetch_bound [OF l(3)] by metis
    have eq: "fetch_row rt row st = st1\<lparr>st_image := k\<rparr>"
      using k by (simp add: fetch_row_def bound f True refetch_def g(1,3) version Let_def st1_def rebind_def h_def)
    have "coh st1"
      using coh_stale [OF coh g(3)] by (auto simp: st1_def coh_def fresh_def h_def rebind_def)
    moreover have "same_buffers k (st_image st1)" "im_version k = im_version (st_image st1)"
      using fetched_row_buffers [OF kr] by (simp_all add: st1_def)
    ultimately have "coh (st1\<lparr>st_image := k\<rparr>)" by (rule coh_image)
    moreover have "True \<notin> set t2"
      using room_fits [OF kr] g(2) by (simp add: h_def room_def)
    hence "image_row rt k row \<and> room k row"
      using fetched_row_whole [OF l(1,2) kr] fits_room [OF kr] by simp
    ultimately show ?thesis by (simp add: eq) (simp add: st1_def)
  qed
qed

end
