(* ===== verification/OdbUserRefines.thy ===== *)
theory OdbUserRefines
  imports OdbUserCorrect OdbRepository
begin

text \<open>
  The generated operations implement the object operations of \<open>Database\<close>: from a coherent statement
  cache, and with a runtime library that keeps its promises, each ends with the same result (value or
  exception) and the same table, leaves a coherent cache, reads no freed buffer, and sends one text, which
  does not depend on the values.
\<close>

section \<open>Programs that do not see the cache\<close>

definition put :: "object_statements \<Rightarrow> string list \<Rightarrow> 'a odbsys_scheme \<Rightarrow> 'a odbsys_scheme" where
  "put st sent s = s\<lparr>odb_sts := st, odb_sent := sent\<rparr>"

lemma put_simps [simp]:
  "odb_sts (put st h s) = st" "odb_sent (put st h s) = h" "db_tx (put st h s) = db_tx s"
  "put st h (put st' h' s) = put st h s" "put (odb_sts s) (odb_sent s) s = s"
  by (simp_all add: put_def)

definition blind :: "('a odbsys_scheme, 'b) prog \<Rightarrow> bool" where
  "blind m \<longleftrightarrow> (\<forall>st h s. m (put st h s) = (fst (m s), put st h (snd (m s))))"

named_theorems blind_rules \<open>programs that neither read nor change the statement cache\<close>

lemma blindD: "blind m \<Longrightarrow> m (put st h s) = (fst (m s), put st h (snd (m s)))"
  by (simp add: blind_def)

lemma blind_pure [blind_rules]: "blind (ret x)" "blind (throw e)" "blind (call r)"
  by (simp_all add: blind_def prog_defs)

lemma blind_get [blind_rules]: "(\<And>st h s. f (put st h s) = f s) \<Longrightarrow> blind (get f)"
  by (simp add: blind_def prog_defs)

lemma blind_modify [blind_rules]: "(\<And>st h s. f (put st h s) = put st h (f s)) \<Longrightarrow> blind (modify f)"
  by (simp add: blind_def prog_defs)

lemma blind_seq [blind_rules]: "blind m \<Longrightarrow> (\<And>x. blind (f x)) \<Longrightarrow> blind (seq m f)"
  by (auto simp: blind_def seq_def split: prod.splits sum.splits)

lemma blind_if [blind_rules]: "blind m \<Longrightarrow> blind n \<Longrightarrow> blind (if b then m else n)"
  by simp

lemma blind_option [blind_rules]: "blind m \<Longrightarrow> (\<And>y. blind (n y)) \<Longrightarrow> blind (case x of None \<Rightarrow> m | Some y \<Rightarrow> n y)"
  by (cases x) simp_all

lemma blind_list [blind_rules]: "blind m \<Longrightarrow> (\<And>y ys. blind (n y ys)) \<Longrightarrow> blind (case x of [] \<Rightarrow> m | y # ys \<Rightarrow> n y ys)"
  by (cases x) simp_all

lemma blind_fault [blind_rules]:
  "blind m \<Longrightarrow> (\<And>e. blind (n e)) \<Longrightarrow> (\<And>e. blind (k e)) \<Longrightarrow>
   blind (case f of No_fault \<Rightarrow> m | Fault e \<Rightarrow> n e | Fault_after e \<Rightarrow> k e)"
  by (cases f) simp_all

lemma blind_next_fault [blind_rules]: "blind next_fault"
  by (auto simp: blind_def next_fault_def put_def split: list.splits)

lemma blind_exchange [blind_rules]: "blind exchange"
  unfolding exchange_def by (intro blind_rules)

lemma blind_table [blind_rules]: "blind current_table" "blind (set_table rows)"
  unfolding current_table_def set_table_def by (intro blind_rules; simp add: put_def)+

lemma blind_statements:
  "blind (sql_insert u)" "blind (sql_update u)" "blind (sql_delete q)" "blind (sql_select q)"
  unfolding sql_insert_def sql_update_def sql_delete_def sql_select_def
  by (intro blind_rules; simp add: put_def)+

lemma step_blind:
  "blind m \<Longrightarrow> seq m f (put st h s) = (case m s of (Inl e, t) \<Rightarrow> (Inl e, put st h t) | (Inr x, t) \<Rightarrow> f x (put st h t))"
  by (simp add: seq_def blindD split: prod.split sum.split)

lemmas step_sql = blind_statements [THEN step_blind]

text \<open>A statement does not end the transaction it runs in.\<close>

abbreviation in_tx :: "'a dbsys_scheme \<Rightarrow> bool" where
  "in_tx s \<equiv> db_tx s \<noteq> None"

lemma statements_in_tx:
  "preserves in_tx (sql_insert u)" "preserves in_tx (sql_update u)" "preserves in_tx (sql_delete q)" "preserves in_tx (sql_select q)"
  unfolding db_defs
  by (rule preserves_wp; auto simp: wp_rules split: list.splits fault.splits option.splits)+

section \<open>Steps of the generated operations\<close>

lemma step_current: "in_tx s \<Longrightarrow> seq current f s = f () s"
  by (auto simp: current_def prog_defs)

lemma step_upd: "seq (upd_sts g) f (put st h s) = f () (put (g st) h s)"
  by (cases s) (simp add: upd_sts_def prog_defs put_def)

lemma step_get: "seq get_sts f (put st h s) = f st (put st h s)"
  by (simp add: get_sts_def prog_defs put_def)

lemma step_send: "seq (send text) f (put st h s) = f () (put st (h @ [text]) s)"
  by (simp add: send_def prog_defs put_def)

lemma seq_case [simp]:
  "seq (case x of None \<Rightarrow> m | Some y \<Rightarrow> n y) f = (case x of None \<Rightarrow> seq m f | Some y \<Rightarrow> seq (n y) f)"
  by (cases x) simp_all

lemma run_pure: "ret x s = (Inr x, s)" "throw e s = (Inl e, s)"
  by (simp_all add: prog_defs)

lemma seq_run: "seq m f s = (case m s of (Inl e, t) \<Rightarrow> (Inl e, t) | (Inr x, t) \<Rightarrow> f x t)"
  by (simp add: seq_def)

lemmas steps = step_current step_upd step_get step_send

text \<open>
  What each operation is to be: \<open>implements C A text\<close> says that \<open>C\<close> does what \<open>A\<close> does, on a coherent cache and
  inside a transaction, and sends \<open>text\<close>.
\<close>

definition implements :: "('a odbsys_scheme, 'b) prog \<Rightarrow> ('a odbsys_scheme, 'b) prog \<Rightarrow> string \<Rightarrow> bool" where
  "implements C A text \<longleftrightarrow> (\<forall>s. coherent (odb_sts s) \<and> in_tx s \<longrightarrow>
     (\<exists>st. coherent st \<and> C s = (fst (A s), put st (odb_sent s @ [text]) (snd (A s)))))"

lemma implementsI:
  assumes "\<And>st h s. coherent st \<Longrightarrow> in_tx s \<Longrightarrow>
     \<exists>st'. coherent st' \<and> C (put st h s) = (fst (A s), put st' (h @ [text]) (snd (A s)))"
  shows "implements C A text"
  unfolding implements_def
proof (intro allI impI)
  fix s :: "'a odbsys_scheme"
  assume s: "coherent (odb_sts s) \<and> in_tx s"
  from assms(1) [of "odb_sts s" s "odb_sent s"] s
  show "\<exists>st. coherent st \<and> C s = (fst (A s), put st (odb_sent s @ [text]) (snd (A s)))" by simp
qed

lemma implementsD:
  "implements C A text \<Longrightarrow> coherent (odb_sts s) \<Longrightarrow> in_tx s \<Longrightarrow>
   \<exists>st. coherent st \<and> C s = (fst (A s), put st (odb_sent s @ [text]) (snd (A s)))"
  by (simp add: implements_def)

section \<open>Each operation\<close>

lemma sql_insert_id [simp]: "sql_insert (u\<lparr>u_id := i\<rparr>) = sql_insert u"
  by (simp add: sql_insert_def cong: if_cong)

lemma row_of [simp]: "\<lparr>u_id = u_id u, u_username = u_username u, u_passwordHash = u_passwordHash u, u_salt = u_salt u\<rparr> = u"
  by simp

lemma row_of_id [simp]:
  "\<lparr>u_id = i, u_username = u_username u, u_passwordHash = u_passwordHash u, u_salt = u_salt u\<rparr> = u\<lparr>u_id := i\<rparr>"
  by simp

lemma persist_implements:
  assumes "rt_laws rt"
  shows "implements (tr_persist rt u) (db_persist u) persist_statement"
proof (rule implementsI)
  fix st h and s :: "'a odbsys_scheme"
  assume st: "coherent st" and s: "in_tx s"
  from assms have laws: "string_laws rt" "int_laws rt" by (simp_all add: rt_laws_def)
  define st1 where "st1 = load_image rt u Statement_insert st"
  define st2 where "st2 = rebind_id (rebind_insert st1)"
  from st have coh: "coh st" "\<not> st_locked st" "st_delayed st = []" by (simp_all add: coherent_coh)
  note c1 = load_image_coh [OF laws(1) coh(1), of u Statement_insert, folded st1_def]
  note c2 = rebind_insert_coh [OF conjunct1 [OF c1]]
  note c3 = rebind_id_coh [OF conjunct1 [OF c2], folded st2_def]
  have st2: "coherent st2" "read_params (st_image st2) (bd_slots (st_insert st2)) = Inr (u_username u, u_passwordHash u, u_salt u)"
    using c1 c2 c3 coh read_params_bound [of "st_image st1" u Statement_insert] by (simp_all add: coherent_coh)
  have st3: "coherent (load_id rt i st2)" for i
    using st2(1) load_id_coh [of rt i st2] by (simp add: coherent_coh)
  show "\<exists>st'. coherent st' \<and> tr_persist rt u (put st h s) =
      (fst (db_persist u s), put st' (h @ [persist_statement]) (snd (db_persist u s)))"
  proof (cases "sql_insert u s")
    case (Pair r t)
    with st2 st3 s load_id_value [OF laws(2), of _ st2] show ?thesis
      by (cases r)
        (auto simp: tr_persist_eq execute_insert_def db_persist_def steps seq_assoc
          st1_def [symmetric] st2_def [symmetric] seq_run [of "sql_insert u" _ s] step_sql run_pure split: option.split)
  qed
qed

lemma update_implements:
  assumes "rt_laws rt"
  shows "implements (tr_update rt u) (db_update u) update_statement"
proof (rule implementsI)
  fix st h and s :: "'a odbsys_scheme"
  assume st: "coherent st" and s: "in_tx s"
  from assms have laws: "string_laws rt" "int_laws rt" by (simp_all add: rt_laws_def)
  define st0 where "st0 = load_id rt (u_id u) st"
  define st1 where "st1 = load_image rt u Statement_update st0"
  define st2 where "st2 = rebind_update st1"
  from st have coh: "coh st0" "\<not> st_locked st0" "st_delayed st0 = []"
    using load_id_coh [of rt "u_id u" st] by (simp_all add: coherent_coh st0_def)
  note c1 = load_image_coh [OF laws(1) coh(1), of u Statement_update, folded st1_def]
  note c2 = rebind_update_coh [OF conjunct1 [OF c1], folded st2_def]
  have st2: "coherent st2" "bd_slots (st_id st2) = [Int_slot Col_id]" "tr_id rt (st_id_image st2) = u_id u"
    "read_params (st_image st2) (bd_slots (st_update st2)) = Inr (u_username u, u_passwordHash u, u_salt u)"
    using c1 c2 coh read_params_bound [of "st_image st1" u Statement_update] load_id_value [OF laws(2), of "u_id u" st]
    by (simp_all add: coherent_coh st0_def)
  show "\<exists>st'. coherent st' \<and> tr_update rt u (put st h s) =
      (fst (db_update u s), put st' (h @ [update_statement]) (snd (db_update u s)))"
  proof (cases "sql_update u s")
    case (Pair r t)
    with st2 s show ?thesis
      by (cases r)
        (auto simp: tr_update_eq execute_update_def db_update_def steps seq_assoc
          st0_def [symmetric] st1_def [symmetric] st2_def [symmetric] seq_run [of "sql_update u" _ s] step_sql run_pure)
  qed
qed

lemma erase_implements:
  assumes "rt_laws rt"
  shows "implements (tr_erase rt i) (db_erase i) erase_statement"
proof (rule implementsI)
  fix st h and s :: "'a odbsys_scheme"
  assume st: "coherent st" and s: "in_tx s"
  from assms have laws: "int_laws rt" by (simp add: rt_laws_def)
  define st1 where "st1 = load_id rt i st"
  define st2 where "st2 = rebind_id st1"
  from st have coh: "coh st1" "\<not> st_locked st1" "st_delayed st1 = []"
    using load_id_coh [of rt i st] by (simp_all add: coherent_coh st1_def)
  note c2 = rebind_id_coh [OF coh(1), folded st2_def]
  have st2: "coherent st2" "bd_slots (st_id st2) = [Int_slot Col_id]" "tr_id rt (st_id_image st2) = i"
    using c2 coh load_id_value [OF laws, of i st] by (simp_all add: coherent_coh st1_def)
  show "\<exists>st'. coherent st' \<and> tr_erase rt i (put st h s) =
      (fst (db_erase i s), put st' (h @ [erase_statement]) (snd (db_erase i s)))"
  proof (cases "sql_delete (\<lambda>r. u_id r = i) s")
    case (Pair r t)
    with st2 s show ?thesis
      by (cases r)
        (auto simp: tr_erase_def execute_erase_def db_erase_def steps seq_assoc
          st1_def [symmetric] st2_def [symmetric] seq_run [of "sql_delete _" _ s] step_sql run_pure)
  qed
qed

section \<open>Loading objects\<close>

lemma coh_lock [simp]: "coh (st\<lparr>st_locked := b\<rparr>) = coh st"
  by (simp add: coh_def)

lemma find_row_runs:
  assumes laws: "rt_laws rt" and st: "coh st" and s: "in_tx s"
    and rows: "sql_select (\<lambda>r. u_id r = i) s = (r, t)"
  shows "\<exists>st'. coh st' \<and> st_locked st' = st_locked st \<and> st_delayed st' = st_delayed st \<and>
    (case r of
       Inl e \<Rightarrow> tr_find_row rt i (put st h s) = (Inl e, put st' (h @ [find_statement]) t)
     | Inr [] \<Rightarrow> tr_find_row rt i (put st h s) = (Inr False, put st' (h @ [find_statement]) t)
     | Inr (row # _) \<Rightarrow> tr_find_row rt i (put st h s) = (Inr True, put st' (h @ [find_statement]) t) \<and>
         image_row rt (st_image st') row \<and> room (st_image st') row)"
proof -
  define st1 where "st1 = load_id rt i st"
  define st2 where "st2 = rebind_select (rebind_id st1)"
  have c1: "coh st1" using st load_id_coh [of rt i st] by (simp add: st1_def)
  note c2 = rebind_id_coh [OF c1]
  note c3 = rebind_select_coh [OF conjunct1 [OF c2], folded st2_def]
  have st2: "coh st2" "bd_slots (st_id st2) = [Int_slot Col_id]" "tr_id rt (st_id_image st2) = i"
    "st_locked st2 = st_locked st" "st_delayed st2 = st_delayed st"
    using c2 c3 laws load_id_coh [of rt i st] load_id_value [of rt i st] by (simp_all add: st1_def rt_laws_def)
  have sel: "bd_slots (st_select st2) = tr_bind (st_image st2) Statement_select" "st_select_version st2 = im_version (st_image st2)"
    using c3 by simp_all
  have run: "tr_find_row rt i (put st h s) = (case r of
       Inl e \<Rightarrow> (Inl e, put st2 (h @ [find_statement]) t)
     | Inr [] \<Rightarrow> (Inr False, put st2 (h @ [find_statement]) t)
     | Inr (row # _) \<Rightarrow> (Inr True, put (fetch_row rt row st2) (h @ [find_statement]) t))"
    using st2 s rows
    by (auto simp: tr_find_row_def execute_find_def steps seq_assoc st1_def [symmetric] st2_def [symmetric]
        step_sql run_pure split: sum.split list.split)
  note load = fetch_row_loads [OF laws st2(1) sel]
  show ?thesis
  proof (cases r)
    case (Inl e)
    with run st2 show ?thesis by auto
  next
    case (Inr rows)
    with run st2 load show ?thesis by (cases rows) auto
  qed
qed

lemma step_lock:
  "\<not> st_locked st \<Longrightarrow> with_lock body (put st h s) =
     (case body True (put (st\<lparr>st_locked := True\<rparr>) h s) of (r, t) \<Rightarrow> (r, put ((odb_sts t)\<lparr>st_locked := False\<rparr>) (odb_sent t) t))"
  unfolding with_lock_def
  by (simp add: steps at_exit_def, simp add: put_def)

text \<open>What is left after \<open>find_\<close> is to copy the image into an object, and it does not matter what that held.\<close>

definition first_row :: "user list \<Rightarrow> user option" where
  "first_row rows = (case rows of [] \<Rightarrow> None | row # _ \<Rightarrow> Some row)"

lemma load_runs:
  assumes "rt_laws rt" and st: "coherent st" and s: "in_tx s" and rows: "sql_select (\<lambda>r. u_id r = i) s = (r, t)"
  shows "\<exists>st'. coherent st' \<and>
    (\<forall>obj. tr_find_into rt i obj (put st h s) = (map_sum id first_row r, put st' (h @ [find_statement]) t)) \<and>
    (\<forall>row rest. r = Inr (row # rest) \<longrightarrow> room (st_image st') row)"
proof -
  from st have "coh (st\<lparr>st_locked := True\<rparr>)" by (simp add: coherent_coh)
  from find_row_runs [OF assms(1) this s rows, of h]
  obtain st' where st': "coh st'" "st_delayed st' = st_delayed st"
    and run: "case r of
       Inl e \<Rightarrow> tr_find_row rt i (put (st\<lparr>st_locked := True\<rparr>) h s) = (Inl e, put st' (h @ [find_statement]) t)
     | Inr [] \<Rightarrow> tr_find_row rt i (put (st\<lparr>st_locked := True\<rparr>) h s) = (Inr False, put st' (h @ [find_statement]) t)
     | Inr (row # _) \<Rightarrow> tr_find_row rt i (put (st\<lparr>st_locked := True\<rparr>) h s) = (Inr True, put st' (h @ [find_statement]) t) \<and>
         image_row rt (st_image st') row \<and> room (st_image st') row" by auto
  have "coherent (st'\<lparr>st_locked := False\<rparr>)" "\<not> st_locked st" using st' st by (simp_all add: coherent_coh)
  with run s show ?thesis
    by (intro exI [of _ "st'\<lparr>st_locked := False\<rparr>"])
      (auto simp: tr_find_into_eq steps seq_assoc step_lock seq_run [of "tr_find_row rt i"]
        init_from_image_def image_row_def run_pure first_row_def split: sum.splits list.splits)
qed

lemma db_find_select:
  "sql_select (\<lambda>r. u_id r = i) s = (r, t) \<Longrightarrow> db_find i s = (map_sum id first_row r, t)"
  by (cases r) (simp_all add: db_find_def seq_run run_pure first_row_def split: list.split)

lemma find_into_implements:
  assumes "rt_laws rt"
  shows "implements (tr_find_into rt i obj) (db_find i) find_statement"
proof (rule implementsI)
  fix st h and s :: "'a odbsys_scheme"
  assume st: "coherent st" and s: "in_tx s"
  obtain r t where rows: "sql_select (\<lambda>r. u_id r = i) s = (r, t)" by fastforce
  from load_runs [OF assms st s rows, of h]
  show "\<exists>st'. coherent st' \<and> tr_find_into rt i obj (put st h s) =
      (fst (db_find i s), put st' (h @ [find_statement]) (snd (db_find i s)))"
    by (auto simp: db_find_select [OF rows])
qed

lemma reload_is_find_into: "tr_reload rt obj = tr_find_into rt (u_id obj) obj"
  by (simp add: tr_reload_eq tr_find_into_eq)

lemma reload_implements: "rt_laws rt \<Longrightarrow> implements (tr_reload rt obj) (db_find (u_id obj)) find_statement"
  by (simp add: reload_is_find_into find_into_implements)

text \<open>With the lock free, loading a new object is loading into one that the caller has made.\<close>

lemma find_unlocked: "\<not> st_locked (odb_sts s) \<Longrightarrow> tr_find rt i s = tr_find_into rt i new_object s"
  unfolding tr_find_eq tr_find_into_eq with_lock_def get_sts_def
  by (simp add: seq_def run_pure get_def upd_sts_def modify_def current_def split: option.split)

lemma find_implements:
  assumes "rt_laws rt"
  shows "implements (tr_find rt i) (db_find i) find_statement"
  unfolding implements_def
proof (intro allI impI)
  fix s :: "'a odbsys_scheme"
  assume s: "coherent (odb_sts s) \<and> in_tx s"
  then have "tr_find rt i s = tr_find_into rt i new_object s"
    by (simp add: find_unlocked coherent_coh)
  with implementsD [OF find_into_implements [OF assms]] s
  show "\<exists>st. coherent st \<and> tr_find rt i s = (fst (db_find i s), put st (odb_sent s @ [find_statement]) (snd (db_find i s)))"
    by metis
qed

lemma query_implements: "implements (tr_query q) (db_query (q_holds q)) (query_text q)"
proof (rule implementsI)
  fix st h and s :: "'a odbsys_scheme"
  assume st: "coherent st" and s: "in_tx s"
  have "coherent (rebind_select st)"
    using st rebind_select_coh [of st] by (simp add: coherent_coh)
  with s show "\<exists>st'. coherent st' \<and> tr_query q (put st h s) =
      (fst (db_query (q_holds q) s), put st' (h @ [query_text q]) (snd (db_query (q_holds q) s)))"
    by (auto simp: tr_query_def steps db_query_def blindD [OF blind_statements(4)])
qed

definition erase_query_text :: "odb_query \<Rightarrow> string" where
  "erase_query_text q =
     (let text = erase_query_statement in if q_clause q \<noteq> [] then (text @ '' '') @ q_clause q else text)"

lemma erase_query_implements: "implements (tr_erase_query q) (sql_delete (q_holds q)) (erase_query_text q)"
  by (rule implementsI)
    (auto simp: tr_erase_query_def erase_query_text_def [symmetric] steps blindD [OF blind_statements(3)])

section \<open>Sequences of operations in one transaction\<close>

datatype object_call =
    Call_persist user
  | Call_update user
  | Call_erase int
  | Call_erase_object user
  | Call_find int
  | Call_find_into int user
  | Call_reload user
  | Call_query odb_query
  | Call_erase_query odb_query

datatype object_reply =
    Reply_done
  | Reply_object user
  | Reply_found "user option"
  | Reply_objects "user list"
  | Reply_count nat

definition answer :: "('a \<Rightarrow> object_reply) \<Rightarrow> ('s, 'a) prog \<Rightarrow> ('s, object_reply) prog" where
  "answer f m = seq m (\<lambda>x. ret (f x))"

primrec generated_call :: "odb_rt \<Rightarrow> object_call \<Rightarrow> ('a odbsys_scheme, object_reply) prog" where
  "generated_call rt (Call_persist u) = answer Reply_object (tr_persist rt u)"
| "generated_call rt (Call_update u) = answer (\<lambda>_. Reply_done) (tr_update rt u)"
| "generated_call rt (Call_erase i) = answer (\<lambda>_. Reply_done) (tr_erase rt i)"
| "generated_call rt (Call_erase_object u) = answer (\<lambda>_. Reply_done) (tr_erase_object rt u)"
| "generated_call rt (Call_find i) = answer Reply_found (tr_find rt i)"
| "generated_call rt (Call_find_into i u) = answer Reply_found (tr_find_into rt i u)"
| "generated_call rt (Call_reload u) = answer Reply_found (tr_reload rt u)"
| "generated_call rt (Call_query q) = answer Reply_objects (tr_query q)"
| "generated_call rt (Call_erase_query q) = answer Reply_count (tr_erase_query q)"

text \<open>The specification: what each call does to the table, and the text it sends.\<close>

primrec table_call :: "object_call \<Rightarrow> ('a dbsys_scheme, object_reply) prog" where
  "table_call (Call_persist u) = answer Reply_object (db_persist u)"
| "table_call (Call_update u) = answer (\<lambda>_. Reply_done) (db_update u)"
| "table_call (Call_erase i) = answer (\<lambda>_. Reply_done) (db_erase i)"
| "table_call (Call_erase_object u) = answer (\<lambda>_. Reply_done) (db_erase (u_id u))"
| "table_call (Call_find i) = answer Reply_found (db_find i)"
| "table_call (Call_find_into i u) = answer Reply_found (db_find i)"
| "table_call (Call_reload u) = answer Reply_found (db_find (u_id u))"
| "table_call (Call_query q) = answer Reply_objects (db_query (q_holds q))"
| "table_call (Call_erase_query q) = answer Reply_count (sql_delete (q_holds q))"

primrec call_text :: "object_call \<Rightarrow> string" where
  "call_text (Call_persist u) = persist_statement"
| "call_text (Call_update u) = update_statement"
| "call_text (Call_erase i) = erase_statement"
| "call_text (Call_erase_object u) = erase_statement"
| "call_text (Call_find i) = find_statement"
| "call_text (Call_find_into i u) = find_statement"
| "call_text (Call_reload u) = find_statement"
| "call_text (Call_query q) = query_text q"
| "call_text (Call_erase_query q) = erase_query_text q"

text \<open>The outcomes of a sequence of calls: a call that throws is followed by the next one.\<close>

primrec outcomes :: "('c \<Rightarrow> ('s, 'r) prog) \<Rightarrow> 'c list \<Rightarrow> 's \<Rightarrow> (exn + 'r) list \<times> 's" where
  "outcomes f [] s = ([], s)"
| "outcomes f (c # cs) s = (let (r, t) = f c s; (rs, u) = outcomes f cs t in (r # rs, u))"

lemma answer_implements: "implements C A text \<Longrightarrow> implements (answer f C) (answer f A) text"
  by (fastforce simp: implements_def answer_def seq_def run_pure split: prod.splits sum.splits)

lemma call_implements:
  assumes "rt_laws rt"
  shows "implements (generated_call rt c) (table_call c) (call_text c)"
  by (cases c)
    (simp_all add: answer_implements assms persist_implements update_implements erase_implements find_implements
      find_into_implements reload_implements query_implements erase_query_implements tr_erase_object_eq getId_def)

lemma answer_blind: "blind m \<Longrightarrow> blind (answer f m)"
  unfolding answer_def by (intro blind_rules)

lemma call_blind: "blind (table_call c)"
  by (cases c; simp; rule answer_blind;
      simp add: db_persist_def db_update_def db_erase_def db_find_def db_query_def blind_statements;
      intro blind_rules blind_statements)

lemma outcomes_blind:
  "outcomes table_call cs (put st h s) = (fst (outcomes table_call cs s), put st h (snd (outcomes table_call cs s)))"
  by (induction cs arbitrary: s) (simp_all add: blindD [OF call_blind] split: prod.split)

lemma call_in_tx: "preserves in_tx (table_call c)"
  by (cases c; simp add: answer_def db_persist_def db_update_def db_erase_def db_find_def db_query_def del: not_None_eq;
      intro preserves_rules statements_in_tx)

section \<open>Exchanges that do not fail\<close>

lemma exchange_faultless: "faultless s \<Longrightarrow> \<exists>fs. exchange s = (Inr (), s\<lparr>db_faults := fs\<rparr>) \<and> faultless (s\<lparr>db_faults := fs\<rparr>)"
  by (cases "db_faults s") (auto simp: exchange_def next_fault_def seq_def ret_def faultless_def intro: exI [of _ "[]"])

lemma select_rows:
  assumes "faultless s" and "db_tx s = Some rows"
  shows "\<exists>t. sql_select q s = (Inr (filter q rows), t) \<and> db_tx t = Some rows"
  using exchange_faultless [OF assms(1)] assms(2)
  by (auto simp: sql_select_def current_table_def prog_defs)

lemma select_unique:
  assumes "faultless s" and "db_tx s = Some rows" and "row \<in> set rows" and "distinct (map u_id rows)"
  shows "\<exists>t. sql_select (\<lambda>r. u_id r = u_id row) s = (Inr [row], t) \<and> db_tx t = Some rows"
proof -
  have "row \<in> set (filter (\<lambda>r. u_id r = u_id row) rows)" using assms(3) by simp
  moreover have "length (filter (\<lambda>r. u_id r = u_id row) rows) \<le> 1" by (rule distinct_ids_unique [OF assms(4)])
  ultimately have "filter (\<lambda>r. u_id r = u_id row) rows = [row]"
    by (cases "filter (\<lambda>r. u_id r = u_id row) rows") auto
  with select_rows [OF assms(1,2)] show ?thesis by metis
qed

lemma insert_row:
  assumes "faultless s" and "db_tx s = Some rows" and "\<forall>r \<in> set rows. u_id r < db_seq s"
  shows "if db_seq s \<le> max_serial
    then \<exists>t. sql_insert u s = (Inr (Some (db_seq s)), t) \<and> faultless t \<and> db_tx t = Some (rows @ [u\<lparr>u_id := db_seq s\<rparr>])
    else \<exists>e t. sql_insert u s = (Inl e, t)"
proof -
  have "db_seq s \<notin> u_id ` set rows" using assms(3) by force
  with exchange_faultless [OF assms(1)] assms(2) show ?thesis
    by (auto simp: sql_insert_def current_table_def set_table_def prog_defs)
qed

lemma persist_row:
  assumes "faultless s" and "db_tx s = Some rows" and "\<forall>r \<in> set rows. u_id r < db_seq s" and "db_persist u s = (Inr v, t)"
  shows "v = u\<lparr>u_id := db_seq s\<rparr> \<and> faultless t \<and> db_tx t = Some (rows @ [v])"
  using insert_row [OF assms(1-3), of u] assms(4)
  by (auto simp: db_persist_def seq_run run_pure split: if_splits)

lemma persist_succeeds:
  assumes "faultless s" and "db_tx s = Some rows" and "\<forall>r \<in> set rows. u_id r < db_seq s" and "db_seq s \<le> max_serial"
  shows "\<exists>v t. db_persist u s = (Inr v, t)"
  using insert_row [OF assms(1-3), of u] assms(4)
  by (auto simp: db_persist_def seq_run run_pure)

section \<open>A runtime\<close>

text \<open>
  A runtime library with the promised behaviour: a value that does not fit moves the buffer to another
  address, with just enough room; a column that does not fit stays as it was.
\<close>

definition demo_grow :: "buffer \<Rightarrow> nat \<Rightarrow> buffer" where
  "demo_grow b n = (if n \<le> buf_cap b then b else b\<lparr>buf_addr := Suc (buf_addr b), buf_cap := n\<rparr>)"

definition demo_fetch :: "slot list \<Rightarrow> user \<Rightarrow> image_type \<Rightarrow> image_type \<times> bool list" where
  "demo_fetch sl row im =
     (let col = (\<lambda>b v. if length v \<le> buf_cap b then b\<lparr>buf_bytes := v\<rparr> else b)
      in if sl \<noteq> tr_bind im Statement_select then (im, [])
         else
           (im\<lparr>im_id_value := u_id row, im_id_null := False,
              im_username_value := col (im_username_value im) (u_username row),
              im_username_size := length (u_username row), im_username_null := False,
              im_passwordHash_value := col (im_passwordHash_value im) (u_passwordHash row),
              im_passwordHash_size := length (u_passwordHash row), im_passwordHash_null := False,
              im_salt_value := col (im_salt_value im) (u_salt row),
              im_salt_size := length (u_salt row), im_salt_null := False\<rparr>,
            [False, buf_cap (im_username_value im) < length (u_username row),
             buf_cap (im_passwordHash_value im) < length (u_passwordHash row), buf_cap (im_salt_value im) < length (u_salt row)]))"

definition demo_rt :: odb_rt where
  "demo_rt = \<lparr>
     rt_set_string = (\<lambda>b v. ((demo_grow b (length v))\<lparr>buf_bytes := v\<rparr>, length v, False)),
     rt_get_string = (\<lambda>b n is_null. if is_null then [] else take n (buf_bytes b)),
     rt_set_int = (\<lambda>i. (i, False)),
     rt_get_int = (\<lambda>v is_null. if is_null then 0 else v),
     rt_capacity = demo_grow,
     rt_fetch = demo_fetch\<rparr>"

lemma demo_rt_laws: "rt_laws demo_rt"
  by (simp add: rt_laws_def string_laws_def int_laws_def fetch_laws_def demo_rt_def demo_grow_def demo_fetch_def
      fetched_row_def fetched_def same_place_def Let_def not_le)

text \<open>The cache as a connection starts with it: empty buffers, and no statement bound.\<close>

definition new_statements :: object_statements where
  "new_statements =
     (let b = \<lparr>buf_addr = 0, buf_cap = 0, buf_bytes = []\<rparr>; none = \<lparr>bd_slots = [], bd_version = 0\<rparr>
      in \<lparr>st_image = \<lparr>im_id_value = 0, im_id_null = True,
             im_username_value = b, im_username_size = 0, im_username_null = True,
             im_passwordHash_value = b, im_passwordHash_size = 0, im_passwordHash_null = True,
             im_salt_value = b, im_salt_size = 0, im_salt_null = True, im_version = 0\<rparr>,
          st_id_image = \<lparr>ii_value = 0, ii_null = True, ii_version = 0\<rparr>,
          st_insert = none, st_insert_version = 0, st_update = none, st_update_version = 0, st_update_id_version = 0,
          st_select = none, st_select_version = 0, st_id = none, st_id_version = 0,
          st_locked = False, st_delayed = []\<rparr>)"

lemma new_statements_coherent: "coherent new_statements"
  by (simp add: coherent_def new_statements_def fresh_def Let_def)

definition demo_odb :: odbsys where
  "demo_odb = dbsys.extend ((demo_db [])\<lparr>db_tx := Some [\<lparr>u_id = 1, u_username = ''ann'', u_passwordHash = ''h'', u_salt = ''s''\<rparr>],
     db_seq := 2\<rparr>) \<lparr>odb_sts = new_statements, odb_sent = []\<rparr>"

lemma demo_odb [simp]:
  "coherent (odb_sts demo_odb)" "odb_sent demo_odb = []" "db_seq demo_odb = 2" "faultless demo_odb"
  "db_tx demo_odb = Some [\<lparr>u_id = 1, u_username = ''ann'', u_passwordHash = ''h'', u_salt = ''s''\<rparr>]"
  by (simp_all add: demo_odb_def dbsys.extend_def new_statements_coherent demo_db_def faultless_def)

section \<open>What the generated code guarantees\<close>

text \<open>
  C7: Any sequence of the generated operations, from a coherent cache and inside a transaction, is the
  sequence of the operations on the table they stand for: the same values and exceptions and the same
  table. Whatever rebinding and reallocation happened, no statement read a freed buffer, and the texts
  sent are determined by the operations: no value of an object is ever part of one.
\<close>

theorem generated_refines_table:
  assumes "rt_laws rt" and "coherent (odb_sts s)" and "db_tx s \<noteq> None"
  shows "\<exists>st. coherent st \<and> outcomes (generated_call rt) cs s =
    (fst (outcomes table_call cs s),
     snd (outcomes table_call cs s) \<lparr>odb_sts := st, odb_sent := odb_sent s @ map call_text cs\<rparr>)"
  using assms(2,3)
proof (induction cs arbitrary: s)
  case Nil
  then show ?case by (auto intro: exI [of _ "odb_sts s"])
next
  case (Cons c cs)
  obtain r t where a: "table_call c s = (r, t)" by fastforce
  from implementsD [OF call_implements [OF assms(1)] Cons.prems, of c] a
  obtain st where st: "coherent st" "generated_call rt c s = (r, put st (odb_sent s @ [call_text c]) t)" by auto
  have tx: "in_tx t" using preserves_result [OF call_in_tx Cons.prems(2) a] .
  from Cons.IH [of "put st (odb_sent s @ [call_text c]) t"] st(1) tx
  show ?case by (auto simp: a st(2) outcomes_blind put_def [symmetric] split: prod.splits)
qed

theorem generated_refines_table_witness:
  "\<exists>st. coherent st \<and>
    outcomes (generated_call demo_rt) [Call_persist (User ''bob'' ''g'' ''t''), Call_find 2, Call_erase 7] demo_odb =
    (fst (outcomes table_call [Call_persist (User ''bob'' ''g'' ''t''), Call_find 2, Call_erase 7] demo_odb),
     snd (outcomes table_call [Call_persist (User ''bob'' ''g'' ''t''), Call_find 2, Call_erase 7] demo_odb)
       \<lparr>odb_sts := st, odb_sent := [persist_statement, find_statement, erase_statement]\<rparr>)"
  using generated_refines_table [OF demo_rt_laws, of demo_odb "[Call_persist (User ''bob'' ''g'' ''t''), Call_find 2, Call_erase 7]"]
  by simp

text \<open>
  C23: Loading a row gives the row itself, whatever the lengths of its columns and the sizes of the
  buffers it is fetched into: a column that does not fit is never cut off. Afterwards every buffer has
  room for its column.
\<close>

theorem find_loads_whole_row:
  assumes "rt_laws rt" and "coherent (odb_sts s)" and "faultless s" and "db_tx s = Some rows"
    and "row \<in> set rows" and "distinct (map u_id rows)"
  shows "\<exists>t. tr_find rt (u_id row) s = (Inr (Some row), t) \<and> db_tx t = Some rows \<and> coherent (odb_sts t) \<and>
    length (u_username row) \<le> buf_cap (im_username_value (st_image (odb_sts t))) \<and>
    length (u_passwordHash row) \<le> buf_cap (im_passwordHash_value (st_image (odb_sts t))) \<and>
    length (u_salt row) \<le> buf_cap (im_salt_value (st_image (odb_sts t)))"
proof -
  obtain u where sel: "sql_select (\<lambda>r. u_id r = u_id row) s = (Inr [row], u)" "db_tx u = Some rows"
    using select_unique [OF assms(3-6)] by auto
  from load_runs [OF assms(1,2) _ sel(1), of "odb_sent s"] assms(4)
  obtain st where "coherent st" "room (st_image st) row"
    "tr_find_into rt (u_id row) new_object s = (Inr (Some row), put st (odb_sent s @ [find_statement]) u)"
    by (auto simp: first_row_def)
  moreover have "tr_find rt (u_id row) s = tr_find_into rt (u_id row) new_object s"
    using assms(2) by (simp add: find_unlocked coherent_coh)
  ultimately show ?thesis
    using sel(2) by (simp add: room_def)
qed

theorem find_loads_whole_row_witness:
  "\<exists>t. tr_find demo_rt 1 demo_odb = (Inr (Some \<lparr>u_id = 1, u_username = ''ann'', u_passwordHash = ''h'', u_salt = ''s''\<rparr>), t) \<and>
    3 \<le> buf_cap (im_username_value (st_image (odb_sts t)))"
proof -
  let ?row = "\<lparr>u_id = 1, u_username = ''ann'', u_passwordHash = ''h'', u_salt = ''s''\<rparr> :: user"
  have "?row \<in> set [?row]" "distinct (map u_id [?row])" by simp_all
  from find_loads_whole_row [OF demo_rt_laws demo_odb(1,4,5) this]
  obtain t where "tr_find demo_rt (u_id ?row) demo_odb = (Inr (Some ?row), t)"
    "length (u_username ?row) \<le> buf_cap (im_username_value (st_image (odb_sts t)))" by (elim exE conjE)
  then show ?thesis by (intro exI [of _ t]) simp
qed

text \<open>
  C24: The three ways of loading agree: \<open>find\<close> with a new object, \<open>find\<close> into an object of the caller,
  whatever it held, and \<open>reload\<close> of an object with that id return the same and leave the same state.
\<close>

theorem loads_agree:
  assumes "rt_laws rt" and "coherent (odb_sts s)" and "db_tx s \<noteq> None"
  shows "tr_find_into rt i obj s = tr_find rt i s \<and> tr_reload rt (obj\<lparr>u_id := i\<rparr>) s = tr_find rt i s"
proof -
  obtain r t where rows: "sql_select (\<lambda>r. u_id r = i) s = (r, t)" by fastforce
  have "tr_find rt i s = tr_find_into rt i new_object s"
    using assms(2) by (simp add: find_unlocked coherent_coh)
  with load_runs [OF assms(1,2,3) rows, of "odb_sent s"] show ?thesis
    by (auto simp: reload_is_find_into)
qed

theorem loads_agree_witness:
  "tr_find_into demo_rt 1 (User ''x'' ''y'' ''z'') demo_odb = tr_find demo_rt 1 demo_odb \<and>
   tr_reload demo_rt ((User ''x'' ''y'' ''z'')\<lparr>u_id := 1\<rparr>) demo_odb = tr_find demo_rt 1 demo_odb"
  using loads_agree [OF demo_rt_laws, of demo_odb 1 "User ''x'' ''y'' ''z''"] by simp

text \<open>
  C25: An object that was made persistent is found under the id it got, with every field as it was.
\<close>

theorem persist_find:
  assumes "rt_laws rt" and "coherent (odb_sts s)" and "faultless s" and "db_tx s = Some rows"
    and "\<forall>r \<in> set rows. u_id r < db_seq s" and "tr_persist rt u s = (Inr v, t)"
  shows "v = u\<lparr>u_id := db_seq s\<rparr> \<and> (\<exists>w. tr_find rt (u_id v) t = (Inr (Some v), w))"
proof -
  from implementsD [OF persist_implements [OF assms(1)] assms(2), of u] assms(4,6)
  obtain st t' where st: "coherent st" "t = put st (odb_sent s @ [persist_statement]) t'" "db_persist u s = (Inr v, t')"
    by (cases "db_persist u s") auto
  from persist_row [OF assms(3-5) st(3)]
  have v: "v = u\<lparr>u_id := db_seq s\<rparr>" "faultless t'" "db_tx t' = Some (rows @ [v])" by auto
  have "filter (\<lambda>r. u_id r = u_id v) rows = []" using assms(5) v(1) by (auto simp: filter_empty_conv)
  with select_rows [OF v(2,3), of "\<lambda>r. u_id r = u_id v"]
  obtain w where "sql_select (\<lambda>r. u_id r = u_id v) t' = (Inr [v], w)" by auto
  hence "fst (db_find (u_id v) t) = Inr (Some v)"
    by (simp add: db_find_def st(2) step_sql run_pure)
  with implementsD [OF find_implements [OF assms(1)], of t "u_id v"] st(1,2) v(1,3) show ?thesis by auto
qed

theorem persist_find_witness:
  "\<exists>v t w. tr_persist demo_rt (User ''bob'' ''g'' ''t'') demo_odb = (Inr v, t) \<and>
    v = (User ''bob'' ''g'' ''t'')\<lparr>u_id := 2\<rparr> \<and> tr_find demo_rt (u_id v) t = (Inr (Some v), w)"
proof -
  let ?u = "User ''bob'' ''g'' ''t''"
  have ids: "\<forall>r \<in> set [\<lparr>u_id = 1, u_username = ''ann'', u_passwordHash = ''h'', u_salt = ''s''\<rparr>]. u_id r < db_seq demo_odb" by simp
  obtain v t where "db_persist ?u demo_odb = (Inr v, t)"
    using persist_succeeds [OF demo_odb(4,5) ids, of ?u] by (simp add: max_serial_def) blast
  with implementsD [OF persist_implements [OF demo_rt_laws], of demo_odb ?u]
  obtain t' where v: "tr_persist demo_rt ?u demo_odb = (Inr v, t')" by auto
  from persist_find [OF demo_rt_laws demo_odb(1,4,5) ids v]
  show ?thesis by (metis v demo_odb(3))
qed

end
