(* ===== verification/RepositoryStack.thy ===== *)
theory RepositoryStack
  imports OdbUserRefines UserRepository
begin

text \<open>
  The repositories of \<open>OdbRepository\<close> and \<open>UserRepository\<close> on the generated operations of \<open>OdbUser\<close>: with their
  transactions and their \<open>catch\<close> clauses they do what they do on the operations of \<open>Database\<close>, so that
  everything proved of them, and of what is built on them, holds of the code as generated.
\<close>

text \<open>
  \<open>eq_clause\<close> is the text of the clause \<open>Query::username == username\<close>, a column and a placeholder: the value
  is a parameter of the statement and not part of the text.
\<close>

definition odb_query_of :: "string \<Rightarrow> user_query \<Rightarrow> odb_query" where
  "odb_query_of eq_clause q =
     \<lparr>q_clause = (case q of Query_all \<Rightarrow> [] | Query_username n \<Rightarrow> eq_clause), q_holds = query_holds q\<rparr>"

definition generated_db :: "string \<Rightarrow> odb_rt \<Rightarrow> ('a odbsys_scheme) object_db" where
  "generated_db eq_clause rt = \<lparr>od_persist = tr_persist rt, od_find = tr_find rt, od_update = tr_update rt,
     od_erase = tr_erase rt, od_query = (\<lambda>q. tr_query (odb_query_of eq_clause q))\<rparr>"

section \<open>Simulation\<close>

text \<open>
  From the states with \<open>P\<close> and a coherent cache: the same outcome, the same state but for the cache,
  which stays coherent, and texts of \<open>T\<close> sent.
\<close>

definition simulates ::
  "('a odbsys_scheme \<Rightarrow> bool) \<Rightarrow> string set \<Rightarrow> ('a odbsys_scheme, 'b) prog \<Rightarrow> ('a odbsys_scheme, 'b) prog \<Rightarrow> bool" where
  "simulates P T C A \<longleftrightarrow> (\<forall>s. P s \<and> coherent (odb_sts s) \<longrightarrow>
     (\<exists>st h. coherent st \<and> set h \<subseteq> T \<and> C s = (fst (A s), put st (odb_sent s @ h) (snd (A s)))))"

lemma simulatesD:
  assumes "simulates P T C A" and "P s" and "coherent (odb_sts s)" and "A s = (r, t)"
  obtains st h where "coherent st" and "set h \<subseteq> T" and "C s = (r, put st (odb_sent s @ h) t)"
  using assms unfolding simulates_def by (metis fst_conv snd_conv)

lemma simulatesI:
  assumes "\<And>s r t. P s \<Longrightarrow> coherent (odb_sts s) \<Longrightarrow> A s = (r, t) \<Longrightarrow>
    \<exists>st h. coherent st \<and> set h \<subseteq> T \<and> C s = (r, put st (odb_sent s @ h) t)"
  shows "simulates P T C A"
  using assms unfolding simulates_def by (metis prod.collapse)

named_theorems simulates_rules \<open>programs on the generated operations and on the table\<close>

lemma simulates_implements: "implements C A text \<Longrightarrow> text \<in> T \<Longrightarrow> simulates in_tx T C A"
  unfolding simulates_def
proof (intro allI impI)
  fix s :: "'a odbsys_scheme"
  assume "implements C A text" "text \<in> T" "in_tx s \<and> coherent (odb_sts s)"
  with implementsD [of C A _ s] obtain st where
    "coherent st" "C s = (fst (A s), put st (odb_sent s @ [text]) (snd (A s)))" by blast
  with \<open>text \<in> T\<close> show "\<exists>st h. coherent st \<and> set h \<subseteq> T \<and> C s = (fst (A s), put st (odb_sent s @ h) (snd (A s)))"
    by (intro exI [of _ st] exI [of _ "[text]"]) simp
qed

lemma simulates_seq [simulates_rules]:
  assumes "simulates P T C A" and "\<And>x. blind (f x)"
  shows "simulates P T (seq C f) (seq A f)"
proof (rule simulatesI)
  fix s r t
  assume s: "P s" "coherent (odb_sts s)" and A: "seq A f s = (r, t)"
  obtain x u where u: "A s = (x, u)" by fastforce
  obtain st h where c: "coherent st" "set h \<subseteq> T" "C s = (x, put st (odb_sent s @ h) u)"
    using simulatesD [OF assms(1) s u] by blast
  have "seq C f s = (r, put st (odb_sent s @ h) t)"
    using A by (cases x) (auto simp: seq_def u c(3) blindD [OF assms(2)])
  with c(1,2) show "\<exists>st h. coherent st \<and> set h \<subseteq> T \<and> seq C f s = (r, put st (odb_sent s @ h) t)" by blast
qed

lemma simulates_catch [simulates_rules]:
  assumes "simulates P T C A" and "\<And>e. blind (k e)"
  shows "simulates P T (catch C c k) (catch A c k)"
proof (rule simulatesI)
  fix s r t
  assume s: "P s" "coherent (odb_sts s)" and A: "catch A c k s = (r, t)"
  obtain x u where u: "A s = (x, u)" by fastforce
  obtain st h where c: "coherent st" "set h \<subseteq> T" "C s = (x, put st (odb_sent s @ h) u)"
    using simulatesD [OF assms(1) s u] by blast
  have "catch C c k s = (r, put st (odb_sent s @ h) t)"
    using A by (cases x) (auto simp: catch_def u c(3) blindD [OF assms(2)] split: if_splits)
  with c(1,2) show "\<exists>st h. coherent st \<and> set h \<subseteq> T \<and> catch C c k s = (r, put st (odb_sent s @ h) t)" by blast
qed

lemma blind_db_begin [blind_rules]: "blind db_begin"
  unfolding db_begin_def by (intro blind_rules) (simp_all add: put_def)

lemma blind_commit [blind_rules]: "blind commit"
  unfolding commit_def by (intro blind_rules) (simp_all add: put_def)

lemma blind_LOG [blind_rules]: "blind (LOG L level message at)"
proof -
  have now: "blind system_now" by (simp add: blind_def system_now_def put_def)
  have path: "blind (getAppDataPath L)"
    unfolding getAppDataPath_def Let_def by (intro blind_rules)
  show ?thesis
    unfolding LOG_def getInstance_def new_LogService_def openLogFile_def getCurrentDate_def log_message_def Let_def case_prod_beta
    by (intro blind_rules now path) (simp_all add: put_def)
qed

lemma begin_in_tx: "db_begin s = (Inr (), t) \<Longrightarrow> in_tx t"
  by (auto simp: db_begin_def prog_defs split: prod.splits sum.splits option.splits)

text \<open>The scope of a transaction starts without one or fails, and ends without one.\<close>

lemma simulates_transaction [simulates_rules]:
  assumes "simulates in_tx T C A"
  shows "simulates P T (transaction C) (transaction A)"
proof (rule simulatesI)
  fix s r t
  assume s: "coherent (odb_sts s)" and A: "transaction A s = (r, t)"
  obtain x u where u: "db_begin s = (x, u)" by fastforce
  have sts: "odb_sts u = odb_sts s" "odb_sent u = odb_sent s"
  proof -
    have "db_begin (put (odb_sts s) (odb_sent s) s) = (fst (db_begin s), put (odb_sts s) (odb_sent s) (snd (db_begin s)))"
      by (rule blindD [OF blind_db_begin])
    with u have "u = put (odb_sts s) (odb_sent s) u" by simp
    then show "odb_sts u = odb_sts s" "odb_sent u = odb_sent s" by (metis put_simps(1), metis put_simps(2))
  qed
  show "\<exists>st h. coherent st \<and> set h \<subseteq> T \<and> transaction C s = (r, put st (odb_sent s @ h) t)"
  proof (cases x)
    case (Inl e)
    with A u have "transaction C s = (r, t)" "t = u" by (simp_all add: transaction_def seq_def)
    with s sts show ?thesis by (intro exI [of _ "odb_sts s"] exI [of _ "[]"]) (simp add: put_def)
  next
    case (Inr y)
    with u have tx: "in_tx u" using begin_in_tx by simp
    obtain y v where v: "A u = (y, v)" by fastforce
    have "coherent (odb_sts u)" using s sts by simp
    from simulatesD [OF assms tx this v] obtain st h where
      c: "coherent st" "set h \<subseteq> T" "C u = (y, put st (odb_sent u @ h) v)" by blast
    have "transaction C s = (r, put st (odb_sent s @ h) t)"
      using A Inr by (cases v) (auto simp: transaction_def seq_def u at_exit_def v c(3) sts put_def)
    with c show ?thesis by blast
  qed
qed

section \<open>The operations of the repository\<close>

text \<open>The texts that may be sent.\<close>

definition repo_texts :: "string \<Rightarrow> string set" where
  "repo_texts eq_clause = {persist_statement, find_statement, update_statement, erase_statement, query_statement,
     query_statement @ '' '' @ eq_clause}"

lemma generated_objects:
  assumes "rt_laws rt"
  shows "simulates in_tx (repo_texts ec) (od_persist (generated_db ec rt) u) (od_persist table_db u)"
    and "simulates in_tx (repo_texts ec) (od_find (generated_db ec rt) i) (od_find table_db i)"
    and "simulates in_tx (repo_texts ec) (od_update (generated_db ec rt) u) (od_update table_db u)"
    and "simulates in_tx (repo_texts ec) (od_erase (generated_db ec rt) i) (od_erase table_db i)"
    and "simulates in_tx (repo_texts ec) (od_query (generated_db ec rt) q) (od_query table_db q)"
proof -
  have member: "query_text (odb_query_of ec q) \<in> repo_texts ec"
    by (cases q) (simp_all add: query_text_def odb_query_of_def repo_texts_def)
  have "q_holds (odb_query_of ec q) = query_holds q" by (simp add: odb_query_of_def)
  with query_implements [of "odb_query_of ec q"]
  have query: "implements (tr_query (odb_query_of ec q)) (db_query (query_holds q)) (query_text (odb_query_of ec q))" by simp
  show "simulates in_tx (repo_texts ec) (od_persist (generated_db ec rt) u) (od_persist table_db u)"
    "simulates in_tx (repo_texts ec) (od_find (generated_db ec rt) i) (od_find table_db i)"
    "simulates in_tx (repo_texts ec) (od_update (generated_db ec rt) u) (od_update table_db u)"
    "simulates in_tx (repo_texts ec) (od_erase (generated_db ec rt) i) (od_erase table_db i)"
    unfolding generated_db_def table_db_def object_db.simps
    by (rule simulates_implements [OF persist_implements [OF assms]] simulates_implements [OF find_implements [OF assms]]
        simulates_implements [OF update_implements [OF assms]] simulates_implements [OF erase_implements [OF assms]];
        simp add: repo_texts_def)+
  show "simulates in_tx (repo_texts ec) (od_query (generated_db ec rt) q) (od_query table_db q)"
    unfolding generated_db_def table_db_def object_db.simps by (rule simulates_implements [OF query member])
qed

datatype store_call = Generic repo_call | Lookup string | Register user

datatype store_reply =
    Reply_flag "bool operation_result"
  | Reply_entity "user operation_result"
  | Reply_entities "user list operation_result"
  | Reply_found_user "user option operation_result"

primrec generic_on :: "('a dbsys_scheme) object_db \<Rightarrow> ('j, 'd) lib \<Rightarrow> repo_call \<Rightarrow> ('a dbsys_scheme, store_reply) prog" where
  "generic_on db L (Create e) = seq (repo_Create db L e) (\<lambda>r. ret (Reply_flag r))"
| "generic_on db L (Read i) = seq (repo_Read db L i) (\<lambda>r. ret (Reply_entity r))"
| "generic_on db L (Update e) = seq (repo_Update db L e) (\<lambda>r. ret (Reply_flag r))"
| "generic_on db L (Delete i) = seq (repo_Delete db L i) (\<lambda>r. ret (Reply_flag r))"
| "generic_on db L ReadAll = seq (repo_ReadAll db L) (\<lambda>r. ret (Reply_entities r))"

primrec store_on :: "('a dbsys_scheme) object_db \<Rightarrow> ('j, 'd) lib \<Rightarrow> store_call \<Rightarrow> ('a dbsys_scheme, store_reply) prog" where
  "store_on db L (Generic c) = generic_on db L c"
| "store_on db L (Lookup n) = seq (ur_getUserByUsername db L n) (\<lambda>r. ret (Reply_found_user r))"
| "store_on db L (Register u) = seq (ur_createUser db L u) (\<lambda>r. ret (Reply_entity r))"

lemma repo_Create_simulates:
  "rt_laws rt \<Longrightarrow> simulates (\<lambda>_. True) (repo_texts ec) (repo_Create (generated_db ec rt) L e) (repo_Create table_db L e)"
  unfolding repo_Create_def odb_catch_def catch2_def
  by (intro simulates_rules blind_rules generated_objects)

lemma lookup_simulates:
  "rt_laws rt \<Longrightarrow> simulates (\<lambda>_. True) (repo_texts ec) (ur_getUserByUsername (generated_db ec rt) L n) (ur_getUserByUsername table_db L n)"
  unfolding ur_getUserByUsername_def
  by (intro simulates_rules blind_rules generated_objects)

lemma simulates_ret: "simulates P T (ret x) (ret x)"
  unfolding simulates_def
proof (intro allI impI)
  fix s :: "'a odbsys_scheme"
  assume "P s \<and> coherent (odb_sts s)"
  then show "\<exists>st h. coherent st \<and> set h \<subseteq> T \<and> ret x s = (fst (ret x s), put st (odb_sent s @ h) (snd (ret x s)))"
    by (intro exI [of _ "odb_sts s"] exI [of _ "[]"]) (simp add: ret_def)
qed

text \<open>Sequencing when the second part uses the database as well.\<close>

lemma simulates_then:
  assumes "simulates P T C A" and "\<And>x. simulates (\<lambda>_. True) T (f x) (g x)" and "\<And>x. blind (g x)"
  shows "simulates P T (seq C f) (seq A g)"
proof (rule simulatesI)
  fix s r t
  assume s: "P s" "coherent (odb_sts s)" and A: "seq A g s = (r, t)"
  obtain x u where u: "A s = (x, u)" by fastforce
  obtain st h where c: "coherent st" "set h \<subseteq> T" "C s = (x, put st (odb_sent s @ h) u)"
    using simulatesD [OF assms(1) s u] by blast
  show "\<exists>st h. coherent st \<and> set h \<subseteq> T \<and> seq C f s = (r, put st (odb_sent s @ h) t)"
  proof (cases x)
    case (Inl e)
    with A c u show ?thesis by (auto simp: seq_def)
  next
    case (Inr y)
    with A u have "g y u = (r, t)" by (simp add: seq_def)
    then have g: "g y (put st (odb_sent s @ h) u) = (r, put st (odb_sent s @ h) t)"
      by (simp add: blindD [OF assms(3)])
    from simulatesD [OF assms(2) TrueI _ this] c(1) obtain st' h' where
      "coherent st'" "set h' \<subseteq> T" "f y (put st (odb_sent s @ h) u) = (r, put st' ((odb_sent s @ h) @ h') t)" by auto
    with c Inr show ?thesis
      by (intro exI [of _ st'] exI [of _ "h @ h'"]) (simp add: seq_def)
  qed
qed

lemma simulates_if:
  "simulates P T m m' \<Longrightarrow> simulates P T n n' \<Longrightarrow> simulates P T (if b then m else n) (if b then m' else n')"
  by simp

lemma blind_catch: "blind m \<Longrightarrow> (\<And>e. blind (h e)) \<Longrightarrow> blind (catch m c h)"
  by (auto simp: blind_def catch_def split: prod.splits sum.splits)

lemma blind_at_exit: "blind m \<Longrightarrow> (\<And>st h s. d (put st h s) = put st h (d s)) \<Longrightarrow> blind (at_exit m d)"
  by (simp add: blind_def at_exit_def split: prod.split)

lemma blind_transaction: "blind m \<Longrightarrow> blind (transaction m)"
  unfolding transaction_def by (intro blind_rules blind_at_exit) (simp_all add: put_def)

lemma table_blind:
  "blind (od_persist table_db u)" "blind (od_find table_db i)" "blind (od_update table_db u)" "blind (od_erase table_db i)"
  "blind (od_query table_db q)"
  unfolding table_db_def object_db.simps db_persist_def db_find_def db_update_def db_erase_def db_query_def
  by (intro blind_rules blind_statements)+

lemmas blind_repo = blind_rules blind_catch blind_transaction table_blind

lemma generic_on_blind: "blind (generic_on table_db L c)"
  by (cases c; simp add: repo_Create_def repo_Read_def repo_Update_def repo_Delete_def repo_ReadAll_def odb_catch_def
        catch2_def od_load_def Let_def; intro blind_repo)

lemma repo_Create_blind: "blind (repo_Create table_db L e)"
  unfolding repo_Create_def odb_catch_def catch2_def by (intro blind_repo)

lemma store_on_blind: "blind (store_on table_db L c)"
  by (cases c; simp add: ur_getUserByUsername_def ur_createUser_def; intro blind_repo repo_Create_blind generic_on_blind)

lemma generic_on_simulates:
  "rt_laws rt \<Longrightarrow> simulates (\<lambda>_. True) (repo_texts ec) (generic_on (generated_db ec rt) L c) (generic_on table_db L c)"
  by (cases c; simp add: repo_Create_def repo_Read_def repo_Update_def repo_Delete_def repo_ReadAll_def odb_catch_def
        catch2_def od_load_def Let_def; intro simulates_rules blind_rules generated_objects)

lemma register_simulates:
  "rt_laws rt \<Longrightarrow> simulates (\<lambda>_. True) (repo_texts ec) (ur_createUser (generated_db ec rt) L u) (ur_createUser table_db L u)"
  unfolding ur_createUser_def
  by (intro simulates_catch simulates_then simulates_if simulates_ret lookup_simulates repo_Create_simulates
      blind_rules repo_Create_blind)

lemma store_on_simulates:
  "rt_laws rt \<Longrightarrow> simulates (\<lambda>_. True) (repo_texts ec) (store_on (generated_db ec rt) L c) (store_on table_db L c)"
  by (cases c; simp; intro generic_on_simulates simulates_seq lookup_simulates register_simulates blind_rules)

section \<open>Twins\<close>

text \<open>
  \<open>twin T C A\<close>: the program \<open>C\<close> on the generated operations does what \<open>A\<close> does on the table, sending only texts
  of \<open>T\<close>, and \<open>A\<close> does not look at the cache. Twins are closed under everything handlers are made of.
\<close>

definition twin :: "string set \<Rightarrow> ('a odbsys_scheme, 'b) prog \<Rightarrow> ('a odbsys_scheme, 'b) prog \<Rightarrow> bool" where
  "twin T C A \<longleftrightarrow> simulates (\<lambda>_. True) T C A \<and> blind A"

named_theorems twin_rules \<open>programs on the generated operations and on the table, from outside\<close>

lemma twin_blind [twin_rules]: "blind m \<Longrightarrow> twin T m m"
  unfolding twin_def
proof
  assume m: "blind m"
  show "simulates (\<lambda>_. True) T m m"
    unfolding simulates_def
  proof (intro allI impI)
    fix s :: "'a odbsys_scheme"
    assume s: "True \<and> coherent (odb_sts s)"
    have "m s = (fst (m s), put (odb_sts s) (odb_sent s) (snd (m s)))"
      using blindD [OF m, of "odb_sts s" "odb_sent s" s] by simp
    with s show "\<exists>st h. coherent st \<and> set h \<subseteq> T \<and> m s = (fst (m s), put st (odb_sent s @ h) (snd (m s)))"
      by (intro exI [of _ "odb_sts s"] exI [of _ "[]"]) simp
  qed
qed

lemma twin_seq [twin_rules]: "twin T C A \<Longrightarrow> (\<And>x. twin T (f x) (g x)) \<Longrightarrow> twin T (seq C f) (seq A g)"
  unfolding twin_def by (blast intro: simulates_then blind_rules)

lemma twin_catch [twin_rules]: "twin T C A \<Longrightarrow> (\<And>e. blind (k e)) \<Longrightarrow> twin T (catch C c k) (catch A c k)"
  unfolding twin_def by (blast intro: simulates_catch blind_catch)

lemma twin_if [twin_rules]: "twin T m m' \<Longrightarrow> twin T n n' \<Longrightarrow> twin T (if b then m else n) (if b then m' else n')"
  by simp

lemma twin_pair [twin_rules]: "(\<And>a b. twin T (m a b) (n a b)) \<Longrightarrow> twin T (case x of (a, b) \<Rightarrow> m a b) (case x of (a, b) \<Rightarrow> n a b)"
  by (cases x) simp

lemma twinD:
  assumes "twin T C A" and "coherent (odb_sts s)"
  shows "\<exists>st h. coherent st \<and> set h \<subseteq> T \<and> C s = (fst (A s), (snd (A s))\<lparr>odb_sts := st, odb_sent := odb_sent s @ h\<rparr>)"
  using assms unfolding twin_def simulates_def put_def by blast

text \<open>Sequences of calls: the same outcomes, one by one, and the same state.\<close>

lemma twin_outcomes:
  assumes "\<And>c. twin T (f c) (g c)" and "coherent (odb_sts s)"
  shows "\<exists>st h. coherent st \<and> set h \<subseteq> T \<and>
    outcomes f cs s = (fst (outcomes g cs s), put st (odb_sent s @ h) (snd (outcomes g cs s)))"
proof -
  have blind: "outcomes g cs (put st h s) = (fst (outcomes g cs s), put st h (snd (outcomes g cs s)))" for cs st h s
    using assms(1) by (induction cs arbitrary: s) (simp_all add: twin_def blindD split: prod.split)
  show ?thesis
    using assms(2)
  proof (induction cs arbitrary: s)
    case Nil
    then show ?case by (intro exI [of _ "odb_sts s"] exI [of _ "[]"]) simp
  next
    case (Cons c cs)
    have sim: "simulates (\<lambda>_. True) T (f c) (g c)" using assms(1) by (simp add: twin_def)
    obtain r t where a: "g c s = (r, t)" by fastforce
    from simulatesD [OF sim TrueI Cons.prems a] obtain st h where
      c: "coherent st" "set h \<subseteq> T" "f c s = (r, put st (odb_sent s @ h) t)" by blast
    from Cons.IH [of "put st (odb_sent s @ h) t"] c(1) obtain st' h' where
      "coherent st'" "set h' \<subseteq> T"
      "outcomes f cs (put st (odb_sent s @ h) t) =
        (fst (outcomes g cs t), put st' ((odb_sent s @ h) @ h') (snd (outcomes g cs t)))"
      by (auto simp: blind)
    with c(2) show ?case
      by (intro exI [of _ st'] exI [of _ "h @ h'"]) (simp add: a c(3) case_prod_beta)
  qed
qed

lemma twin_store: "rt_laws rt \<Longrightarrow> twin (repo_texts ec) (store_on (generated_db ec rt) L c) (store_on table_db L c)"
  by (simp add: twin_def store_on_simulates store_on_blind)

text \<open>On the table operations the calls are those of \<open>OdbRepository\<close> and \<open>UserRepository\<close>.\<close>

lemma store_on_table:
  "store_on table_db L (Lookup n) = seq (getUserByUsername L n) (\<lambda>r. ret (Reply_found_user r))"
  "store_on table_db L (Register u) = seq (createUser L u) (\<lambda>r. ret (Reply_entity r))"
  "snd (store_on table_db L (Generic c) s) = repo_step L c s"
  by (simp_all add: getUserByUsername_repo createUser_repo)
     (cases c; simp add: odb_repo seq_def run_pure split: prod.split sum.split)

lemma table_wf_put: "table_wf (put st h s) = table_wf s"
  by (simp add: table_wf_def put_def)

lemma store_on_wf: "table_wf s \<Longrightarrow> table_wf (snd (store_on table_db L c s))"
proof (cases c)
  case (Lookup n)
  assume wf: "table_wf s"
  obtain r t where t: "getUserByUsername L n s = (r, t)" by fastforce
  from users.get_pure [OF wf t] have "table_wf t" by simp
  then show ?thesis by (simp add: Lookup getUserByUsername_repo [symmetric] seq_def t ret_def split: sum.split)
next
  case (Register u)
  assume wf: "table_wf s"
  obtain r t where t: "createUser L u s = (r, t)" by fastforce
  from users.create_wf [OF wf t] have "table_wf t" by simp
  then show ?thesis by (simp add: Register createUser_repo [symmetric] seq_def t ret_def split: sum.split)
next
  case (Generic g)
  assume "table_wf s"
  then show ?thesis unfolding Generic store_on_table(3) by (rule repo_step_wf)
qed

lemma store_run_wf: "table_wf s \<Longrightarrow> table_wf (snd (outcomes (store_on table_db L) cs s))"
proof (induction cs arbitrary: s)
  case (Cons c cs)
  from Cons.IH [OF store_on_wf [OF Cons.prems]] show ?case by (simp add: case_prod_beta)
qed simp

section \<open>Properties\<close>

text \<open>
  C9: The repositories on the generated code. Any sequence of calls of the generic and of the user
  repository, with whatever exchanges with the server failing, has on the generated object operations the
  outcomes it has on the table operations, value for value and exception for exception, and ends in the
  same table; the statement cache is coherent again, the invariant of the table is kept, and what was
  sent are six fixed texts and nothing else: no name, hash or salt is ever part of a statement's text.
\<close>

theorem repository_on_generated:
  assumes "rt_laws rt" and "coherent (odb_sts s)"
  shows "\<exists>st h. coherent st \<and> set h \<subseteq> repo_texts ec \<and>
    outcomes (store_on (generated_db ec rt) L) cs s =
      (fst (outcomes (store_on table_db L) cs s),
       snd (outcomes (store_on table_db L) cs s) \<lparr>odb_sts := st, odb_sent := odb_sent s @ h\<rparr>) \<and>
    (table_wf s \<longrightarrow> table_wf (snd (outcomes (store_on (generated_db ec rt) L) cs s)))"
proof -
  obtain st h where st: "coherent st" "set h \<subseteq> repo_texts ec"
    "outcomes (store_on (generated_db ec rt) L) cs s =
      (fst (outcomes (store_on table_db L) cs s), put st (odb_sent s @ h) (snd (outcomes (store_on table_db L) cs s)))"
    using twin_outcomes [where f = "store_on (generated_db ec rt) L" and g = "store_on table_db L" and cs = cs,
        OF twin_store [OF assms(1)] assms(2)] by blast
  moreover have "table_wf s \<longrightarrow> table_wf (snd (outcomes (store_on (generated_db ec rt) L) cs s))"
    using store_run_wf [of s L cs] by (simp add: st(3) table_wf_put)
  ultimately show ?thesis
    by (intro exI [of _ st] exI [of _ h] conjI) (simp_all add: put_def)
qed

theorem repository_on_generated_witness:
  "\<exists>st h. coherent st \<and> set h \<subseteq> repo_texts ''WHERE username = $1'' \<and>
    outcomes (store_on (generated_db ''WHERE username = $1'' demo_rt) demo_lib)
      [Register (User ''bob'' ''g'' ''t''), Lookup ''bob'', Generic (Read 2), Generic ReadAll] (demo_odb\<lparr>db_tx := None\<rparr>) =
    (fst (outcomes (store_on table_db demo_lib)
        [Register (User ''bob'' ''g'' ''t''), Lookup ''bob'', Generic (Read 2), Generic ReadAll] (demo_odb\<lparr>db_tx := None\<rparr>)),
     snd (outcomes (store_on table_db demo_lib)
        [Register (User ''bob'' ''g'' ''t''), Lookup ''bob'', Generic (Read 2), Generic ReadAll] (demo_odb\<lparr>db_tx := None\<rparr>))
       \<lparr>odb_sts := st, odb_sent := h\<rparr>)"
proof -
  have s: "coherent (odb_sts (demo_odb\<lparr>db_tx := None\<rparr>))" "odb_sent (demo_odb\<lparr>db_tx := None\<rparr>) = []"
    using demo_odb(1,2) by (simp_all add: demo_odb_def dbsys.extend_def)
  from repository_on_generated [OF demo_rt_laws s(1), of "''WHERE username = $1''" demo_lib
      "[Register (User ''bob'' ''g'' ''t''), Lookup ''bob'', Generic (Read 2), Generic ReadAll]"] s(2)
  show ?thesis by (metis append_Nil)
qed

end
