(* ===== verification/Http.thy ===== *)
theory Http
  imports OdbUser
begin

text \<open>
  Requests and responses as far as the application looks at them (\<open>http::request\<close> and
  \<open>http::response\<close> of Boost.Beast with string bodies), the state a handler runs in, and
  \<^verbatim>\<open>src/Network/Router.h\<close>. The locale \<open>route_table\<close> is what the server relies on when it registers
  handlers and dispatches requests.
\<close>

section \<open>Messages\<close>

text \<open>
  \<open>req_find\<close> is \<open>req.find(name)\<close>: the value of the first field of that name, if there is one. The
  headers themselves stay inside Beast.
\<close>

record http_request =
  req_method :: string
  req_target :: string
  req_version :: nat
  req_keep_alive :: bool
  req_find :: "string \<Rightarrow> string option"
  req_body :: string

datatype http_status = Status_ok | Status_bad_request | Status_unauthorized | Status_not_found

fun status_code :: "http_status \<Rightarrow> nat" where
  "status_code Status_ok = 200"
| "status_code Status_bad_request = 400"
| "status_code Status_unauthorized = 401"
| "status_code Status_not_found = 404"

datatype http_field = Content_type | Server_field

text \<open>
  \<open>res_prepared\<close> is what \<open>prepare_payload()\<close> recorded: the size of the body at that moment. It stays
  \<open>None\<close> in a response on which it was never called.
\<close>

record http_response =
  res_version :: nat
  res_keep_alive :: bool
  res_status :: http_status
  res_fields :: "http_field \<rightharpoonup> string"
  res_body :: string
  res_prepared :: "nat option"

definition new_response :: "nat \<Rightarrow> bool \<Rightarrow> http_response" where
  "new_response version keep_alive =
     \<lparr>res_version = version, res_keep_alive = keep_alive, res_status = Status_ok, res_fields = Map.empty,
      res_body = [], res_prepared = None\<rparr>"

definition set_result :: "http_status \<Rightarrow> http_response \<Rightarrow> http_response" where
  "set_result st r = r\<lparr>res_status := st\<rparr>"

definition set_field :: "http_field \<Rightarrow> string \<Rightarrow> http_response \<Rightarrow> http_response" where
  "set_field f v r = r\<lparr>res_fields := (res_fields r)(f \<mapsto> v)\<rparr>"

definition set_body :: "string \<Rightarrow> http_response \<Rightarrow> http_response" where
  "set_body b r = r\<lparr>res_body := b\<rparr>"

definition prepare_payload :: "http_response \<Rightarrow> http_response" where
  "prepare_payload r = r\<lparr>res_prepared := Some (length (res_body r))\<rparr>"

lemmas response_defs = new_response_def set_result_def set_field_def set_body_def prepare_payload_def

text \<open>A response framed for its body: the payload was prepared and the body not changed since.\<close>

definition framed :: "http_response \<Rightarrow> bool" where
  "framed r \<longleftrightarrow> res_prepared r = Some (length (res_body r))"

section \<open>The state a handler runs in\<close>

record app = odbsys +
  app_res :: http_response

definition res_do :: "(http_response \<Rightarrow> http_response) \<Rightarrow> ('a app_scheme, unit) prog" where
  "res_do f = modify (\<lambda>s. s\<lparr>app_res := f (app_res s)\<rparr>)"

text \<open>
  The four statements with which the code answers: \<open>res.result(st); res.set(content_type, ct);
  res.body() = body; res.prepare_payload();\<close> where computing the body may throw.
\<close>

definition reply ::
  "http_status \<Rightarrow> string \<Rightarrow> exn + string \<Rightarrow> ('a app_scheme, unit) prog" where
  "reply st ct body =
     seq (res_do (set_result st)) (\<lambda>_.
     seq (res_do (set_field Content_type ct)) (\<lambda>_.
     seq (call body) (\<lambda>b.
     seq (res_do (set_body b)) (\<lambda>_.
     res_do prepare_payload))))"

text \<open>The response a reply leaves when its body can be computed.\<close>

definition replied :: "http_status \<Rightarrow> string \<Rightarrow> string \<Rightarrow> http_response \<Rightarrow> http_response" where
  "replied st ct b r = r\<lparr>res_status := st, res_fields := (res_fields r)(Content_type \<mapsto> ct),
     res_body := b, res_prepared := Some (length b)\<rparr>"

lemma reply_Inr: "reply st ct (Inr b) s = (Inr (), s\<lparr>app_res := replied st ct b (app_res s)\<rparr>)"
  by (simp add: reply_def prog_defs res_do_def response_defs replied_def)

lemma wp_reply [wp_rules]:
  "wp (reply st ct (Inr b)) Q s = Q (Inr ()) (s\<lparr>app_res := replied st ct b (app_res s)\<rparr>)"
  by (simp add: wp_def reply_Inr)

lemma wp_reply_Inl [wp_rules]:
  "wp (reply st ct (Inl e)) Q s =
     Q (Inl e) (s\<lparr>app_res := (app_res s)\<lparr>res_status := st, res_fields := (res_fields (app_res s))(Content_type \<mapsto> ct)\<rparr>\<rparr>)"
  by (simp add: wp_def reply_def prog_defs res_do_def response_defs)

lemma replied_simps [simp]:
  "res_status (replied st ct b r) = st" "res_body (replied st ct b r) = b"
  "res_prepared (replied st ct b r) = Some (length b)" "res_fields (replied st ct b r) Content_type = Some ct"
  "res_version (replied st ct b r) = res_version r" "res_keep_alive (replied st ct b r) = res_keep_alive r"
  "framed (replied st ct b r)"
  by (simp_all add: replied_def framed_def)

lemma replied_replied [simp]: "replied st ct b (replied st' ct' b' r) = replied st ct b r"
  by (simp add: replied_def)

section \<open>Router\<close>

text \<open>\<open>Handler\<close>, a function of the request that works on the response in the state.\<close>

type_synonym 's handler = "http_request \<Rightarrow> ('s, unit) prog"

record 'h router =
  routes :: "string \<rightharpoonup> 'h"

definition new_router :: "'h router" where
  "new_router = \<lparr>routes = Map.empty\<rparr>"

definition route_key :: "string \<Rightarrow> string \<Rightarrow> string" where
  "route_key method path = method @ '':'' @ path"

definition addRoute :: "string \<Rightarrow> string \<Rightarrow> 'h \<Rightarrow> 'h router \<Rightarrow> 'h router" where
  "addRoute method path handler r = r\<lparr>routes := (routes r)(route_key method path \<mapsto> handler)\<rparr>"

text \<open>\<open>handleRequest\<close>: whether a handler was found; if so it has run.\<close>

definition find_route :: "'h router \<Rightarrow> string \<Rightarrow> string \<Rightarrow> 'h option" where
  "find_route r method path = routes r (route_key method path)"

definition router_handleRequest :: "'s handler router \<Rightarrow> http_request \<Rightarrow> ('s, bool) prog" where
  "router_handleRequest r req = (case find_route r (req_method req) (req_target req) of
      Some h \<Rightarrow> seq (h req) (\<lambda>_. ret True)
    | None \<Rightarrow> ret False)"

section \<open>Dispatch\<close>

text \<open>
  \<open>handle_request\<close> of \<^verbatim>\<open>src/Network/HttpSession.cc\<close>: a fresh response, the router, and the answer for an
  unknown route. What it passes to \<open>send\<close> is its result.
\<close>

definition text_plain :: string where
  "text_plain = ''text/plain''"

definition handle_request :: "'a app_scheme handler router \<Rightarrow> http_request \<Rightarrow> ('a app_scheme, http_response) prog" where
  "handle_request router req =
     seq (modify (\<lambda>s. s\<lparr>app_res := new_response (req_version req) (req_keep_alive req)\<rparr>)) (\<lambda>_.
     seq (router_handleRequest router req) (\<lambda>found.
     seq (if \<not> found then reply Status_not_found text_plain (Inr ''Not Found'') else ret ()) (\<lambda>_.
     get app_res)))"

lemma handle_request_found:
  assumes "find_route router (req_method req) (req_target req) = Some h"
  shows "wp (handle_request router req) Q s =
    wp (h req) (\<lambda>r t. case r of Inl e \<Rightarrow> Q (Inl e) t | Inr _ \<Rightarrow> Q (Inr (app_res t)) t)
      (s\<lparr>app_res := new_response (req_version req) (req_keep_alive req)\<rparr>)"
  by (simp add: handle_request_def router_handleRequest_def assms wp_rules cong: sum.case_cong)

lemma handle_request_missing:
  assumes "find_route router (req_method req) (req_target req) = None"
  shows "wp (handle_request router req) Q s =
    (let r = replied Status_not_found text_plain ''Not Found'' (new_response (req_version req) (req_keep_alive req))
     in Q (Inr r) (s\<lparr>app_res := r\<rparr>))"
  by (simp add: handle_request_def router_handleRequest_def assms wp_rules Let_def)

section \<open>The interface of the router\<close>

text \<open>
  A table of handlers under a method and a path. The key is one string, so two entries are told
  apart only if the method has no colon, which the grammar of HTTP guarantees (a method is a
  token).
\<close>

definition method_ok :: "string \<Rightarrow> bool" where
  "method_ok m \<longleftrightarrow> CHR '':'' \<notin> set m"

lemma route_key_inject:
  "method_ok m \<Longrightarrow> method_ok n \<Longrightarrow> route_key m p = route_key n q \<longleftrightarrow> m = n \<and> p = q"
  unfolding route_key_def method_ok_def by (rule append_colon_inject)

locale route_table =
  fixes empty :: "'t"
    and add :: "string \<Rightarrow> string \<Rightarrow> 'h \<Rightarrow> 't \<Rightarrow> 't"
    and lookup :: "'t \<Rightarrow> string \<Rightarrow> string \<Rightarrow> 'h option"
    and valid :: "string \<Rightarrow> bool"
  assumes lookup_empty: "lookup empty m p = None"
    and lookup_add: "valid m \<Longrightarrow> valid n \<Longrightarrow>
          lookup (add n q h t) m p = (if m = n \<and> p = q then Some h else lookup t m p)"
begin

text \<open>Registering a list of routes in turn; the last one for a key wins.\<close>

fun add_all :: "(string \<times> string \<times> 'h) list \<Rightarrow> 't \<Rightarrow> 't" where
  "add_all [] t = t"
| "add_all ((m, p, h) # rs) t = add_all rs (add m p h t)"

lemma lookup_add_all:
  assumes "\<forall>(n, q, h) \<in> set rs. valid n" and "valid m"
  shows "lookup (add_all rs t) m p =
    (case map_of (rev (map (\<lambda>(n, q, h). ((n, q), h)) rs)) (m, p) of Some h \<Rightarrow> Some h | None \<Rightarrow> lookup t m p)"
  using assms
proof (induction rs arbitrary: t)
  case (Cons r rs)
  obtain n q h where r: "r = (n, q, h)" by (cases r)
  with Cons show ?case
    by (auto simp: lookup_add map_add_def split: option.split)
qed (simp add: lookup_empty)

lemma lookup_add_all_None:
  assumes "\<forall>(n, q, h) \<in> set rs. valid n" and "valid m" and "(m, p) \<notin> set (map (\<lambda>(n, q, h). (n, q)) rs)"
  shows "lookup (add_all rs empty) m p = None"
proof -
  have "map_of (rev (map (\<lambda>(n, q, h). ((n, q), h)) rs)) (m, p) = None"
    using assms(3) by (force simp: map_of_eq_None_iff)
  with lookup_add_all [OF assms(1,2)] show ?thesis by (simp add: lookup_empty)
qed

end

interpretation rt: route_table new_router addRoute find_route method_ok
  by unfold_locales (simp_all add: new_router_def addRoute_def find_route_def route_key_inject eq_commute)

end
