(* ===== verification/PasswordHelper.thy ===== *)
theory PasswordHelper
  imports LogService
begin

text \<open>
  \<^verbatim>\<open>src/Security/PasswordHelper.{h,cc}\<close>: salts, password hashes and their verification. The locale
  \<open>password_hasher\<close> is what the user service relies on.
\<close>

section \<open>Handlers that log and throw again\<close>

text \<open>\<open>catch (const std::exception &e) { LOG(ERROR, e.what()); throw std::runtime_error(msg); }\<close>\<close>

definition rethrow ::
  "('j, 'd) lib \<Rightarrow> site \<Rightarrow> string \<Rightarrow> ('a sys_scheme, 'b) prog \<Rightarrow> ('a sys_scheme, 'b) prog" where
  "rethrow L at msg m =
     catch m is_std (\<lambda>e. seq (LOG L ERROR (what e) at) (\<lambda>_. throw (Runtime_error msg)))"

text \<open>It does not touch an outcome that is a value.\<close>

lemma rethrow_Inr: "m s = (Inr x, t) \<Longrightarrow> rethrow L at msg m s = (Inr x, t)"
  by (simp add: rethrow_def catch_def)

lemma rethrow_InrD: "rethrow L at msg m s = (Inr x, t) \<Longrightarrow> m s = (Inr x, t)"
  by (auto simp: rethrow_def catch_def seq_def throw_def split: prod.splits sum.splits if_splits)

lemma rethrow_Inl:
  "m s = (Inl e, t) \<Longrightarrow> is_std e \<Longrightarrow> log_total L \<Longrightarrow> fst (rethrow L at msg m s) = Inl (Runtime_error msg)"
  using LOG_fst [of L ERROR "what e" at t]
  by (auto simp: rethrow_def catch_def seq_def throw_def split: prod.splits sum.splits)

lemma wp_rethrow:
  assumes "wp m (\<lambda>r t. case r of
      Inl e \<Rightarrow> if is_std e
        then \<forall>e' n i er. (log_total L \<longrightarrow> e' = Runtime_error msg) \<longrightarrow>
               Q (Inl e') (t\<lparr>clk_pos := n, log_instance := i, log_stderr := er\<rparr>)
        else Q (Inl e) t
    | Inr v \<Rightarrow> Q (Inr v) t) s"
  shows "wp (rethrow L at msg m) Q s"
  unfolding rethrow_def wp_catch
proof (rule wp_conseq [OF assms], goal_cases)
  case (1 r t)
  then show ?case
    by (cases r) (auto simp: wp_seq wp_throw intro!: wp_LOG split: sum.split if_splits)
qed

section \<open>The operations\<close>

definition ph_site :: "int \<Rightarrow> string \<Rightarrow> site" where
  "ph_site line fn = (''src/Security/PasswordHelper.cc'', line, fn)"

text \<open>\<open>dist(gen)\<close> with the generator seeded from \<open>std::random_device\<close>.\<close>

definition draw :: "('a sys_scheme, int) prog" where
  "draw = (\<lambda>s. (Inr (rng_seq s (rng_pos s)), s\<lparr>rng_pos := Suc (rng_pos s)\<rparr>))"

fun fill_bytes :: "nat \<Rightarrow> ('a sys_scheme, u8 list) prog" where
  "fill_bytes 0 = ret []"
| "fill_bytes (Suc n) = seq draw (\<lambda>v. seq (fill_bytes n) (\<lambda>bs. ret (word_of_int v # bs)))"

definition GenerateRandomSalt :: "('j, 'd) lib \<Rightarrow> nat \<Rightarrow> ('a sys_scheme, u8 list) prog" where
  "GenerateRandomSalt L len =
     rethrow L (ph_site 41 ''GenerateRandomSalt'') ''Error while trying to generate random salt''
       (seq (get rng_error) (\<lambda>err. case err of
          Some e \<Rightarrow> throw e
        | None \<Rightarrow> fill_bytes len))"

definition ARGON2_OK :: int where
  "ARGON2_OK = 0"

text \<open>The two inlined loops that print the raw hash.\<close>

definition print_hash :: "u8 list \<Rightarrow> string" where
  "print_hash hashRaw =
     foldl (\<lambda>hexStream byte. hexStream @ setw 2 (CHR ''0'') (hex_of_nat (unat byte))) [] hashRaw"

definition HashPasswordWithArgon2 :: "('j, 'd) lib \<Rightarrow> string \<Rightarrow> ('a sys_scheme, string \<times> u8 list) prog" where
  "HashPasswordWithArgon2 L password =
     rethrow L (ph_site 88 ''HashPasswordWithArgon2'') ''Error while trying to hash password with Argon2''
       (seq (GenerateRandomSalt L 16) (\<lambda>salt.
        let t_cost = 2; m_cost = push_bit 16 1; parallelism = 1;
            (result, hashRaw) = argon2i_hash_raw L t_cost m_cost parallelism password salt 32
        in if result \<noteq> ARGON2_OK then throw (Runtime_error ''Hashing failed with Argon2'')
           else ret (print_hash hashRaw, salt)))"

definition VerifyPasswordWithArgon2 ::
  "('j, 'd) lib \<Rightarrow> string \<Rightarrow> string \<Rightarrow> u8 list \<Rightarrow> ('a sys_scheme, bool) prog" where
  "VerifyPasswordWithArgon2 L password hashHex salt =
     rethrow L (ph_site 161 ''VerifyPasswordWithArgon2'') ''Error while trying to verify password with Argon2''
       (let t_cost = 2; m_cost = push_bit 16 1; parallelism = 1;
            (result, hashRaw) = argon2i_hash_raw L t_cost m_cost parallelism password salt 32
        in if result \<noteq> ARGON2_OK then throw (Runtime_error ''Hashing failed with Argon2'')
           else ret (print_hash hashRaw = hashHex))"

definition VerifyUserPassword ::
  "('j, 'd) lib \<Rightarrow> string \<Rightarrow> string \<Rightarrow> string \<Rightarrow> ('a sys_scheme, bool) prog" where
  "VerifyUserPassword L hash saltInHex password =
     rethrow L (ph_site 112 ''VerifyUserPassword'') ''Error while trying to verify user password''
       (seq (call (fromHexString saltInHex)) (\<lambda>salt.
        VerifyPasswordWithArgon2 L password hash salt))"

section \<open>Lemmas\<close>

text \<open>The inlined loops print what \<open>Utility::toHexString\<close> prints.\<close>

lemma print_hash_toHexString: "print_hash bs = toHexString bs"
  by (simp add: print_hash_def toHexString_def put_hex_byte_def [abs_def])

text \<open>The raw hash of a password under a salt, when argon2 computes one.\<close>

definition argon2_hash :: "('j, 'd) lib \<Rightarrow> string \<Rightarrow> u8 list \<Rightarrow> u8 list option" where
  "argon2_hash L password salt =
     (let (result, hashRaw) = argon2i_hash_raw L 2 65536 1 password salt 32
      in if result = 0 then Some hashRaw else None)"

lemma m_cost_value: "push_bit 16 (1 :: 32 word) = 65536"
  by simp

text \<open>What the generator delivers: the next values, reduced to bytes.\<close>

definition next_bytes :: "'a sys_scheme \<Rightarrow> nat \<Rightarrow> u8 list" where
  "next_bytes s n = map (\<lambda>i. word_of_int (rng_seq s (rng_pos s + i))) [0..<n]"

lemma fill_bytes_eq: "fill_bytes n s = (Inr (next_bytes s n), s\<lparr>rng_pos := rng_pos s + n\<rparr>)"
proof (induction n arbitrary: s)
  case 0
  then show ?case by (simp add: next_bytes_def prog_defs)
next
  case (Suc n)
  have "next_bytes s (Suc n) = word_of_int (rng_seq s (rng_pos s)) # next_bytes (s\<lparr>rng_pos := Suc (rng_pos s)\<rparr>) n"
    by (simp add: next_bytes_def upt_conv_Cons map_Suc_upt [symmetric] comp_def del: upt_Suc)
  with Suc [of "s\<lparr>rng_pos := Suc (rng_pos s)\<rparr>"] show ?case by (simp add: seq_def draw_def ret_def)
qed

lemma length_next_bytes [simp]: "length (next_bytes s n) = n"
  by (simp add: next_bytes_def)

lemma GenerateRandomSalt_ok:
  "rng_error s = None \<Longrightarrow>
   GenerateRandomSalt L n s = (Inr (next_bytes s n), s\<lparr>rng_pos := rng_pos s + n\<rparr>)"
  by (simp add: GenerateRandomSalt_def rethrow_Inr seq_def get_def fill_bytes_eq)

lemma GenerateRandomSalt_Inr:
  "GenerateRandomSalt L n s = (Inr bs, t) \<Longrightarrow> rng_error s = None"
  by (auto simp: GenerateRandomSalt_def seq_def get_def throw_def dest!: rethrow_InrD split: option.splits)

lemma HashPassword_Inr:
  "HashPasswordWithArgon2 L p s = (Inr (h, salt), t) \<longleftrightarrow>
     rng_error s = None \<and> salt = next_bytes s 16 \<and> t = s\<lparr>rng_pos := rng_pos s + 16\<rparr> \<and>
     (\<exists>raw. argon2_hash L p salt = Some raw \<and> h = toHexString raw)" (is "?l \<longleftrightarrow> ?r")
proof
  assume ?l
  from rethrow_InrD [OF this [unfolded HashPasswordWithArgon2_def]]
  obtain bs u where g: "GenerateRandomSalt L 16 s = (Inr bs, u)"
    by (auto simp: seq_def split: prod.splits sum.splits)
  with GenerateRandomSalt_Inr [OF this] GenerateRandomSalt_ok [of s L 16]
    rethrow_InrD [OF \<open>?l\<close> [unfolded HashPasswordWithArgon2_def]]
  show ?r
    by (auto simp: seq_def Let_def argon2_hash_def print_hash_toHexString ARGON2_OK_def throw_def ret_def
        split: prod.splits if_splits)
next
  assume r: ?r
  then have "GenerateRandomSalt L 16 s = (Inr salt, t)" using GenerateRandomSalt_ok by blast
  with r show ?l
    by (auto simp: HashPasswordWithArgon2_def seq_def Let_def argon2_hash_def print_hash_toHexString
        ARGON2_OK_def ret_def intro!: rethrow_Inr split: prod.splits if_splits)
qed

lemma VerifyPassword_Inr:
  "VerifyPasswordWithArgon2 L p h salt s = (Inr b, t) \<longleftrightarrow>
     t = s \<and> (\<exists>raw. argon2_hash L p salt = Some raw \<and> b = (toHexString raw = h))" (is "?l \<longleftrightarrow> ?r")
proof
  assume ?l
  from rethrow_InrD [OF this [unfolded VerifyPasswordWithArgon2_def]] show ?r
    by (auto simp: Let_def argon2_hash_def print_hash_toHexString ARGON2_OK_def throw_def ret_def
        split: prod.splits if_splits)
next
  assume ?r
  then show ?l
    by (auto simp: VerifyPasswordWithArgon2_def Let_def argon2_hash_def print_hash_toHexString
        ARGON2_OK_def ret_def intro!: rethrow_Inr split: prod.splits if_splits)
qed

lemma VerifyUserPassword_Inr:
  "VerifyUserPassword L h saltHex p s = (Inr b, t) \<longleftrightarrow>
     t = s \<and> (\<exists>salt raw. fromHexString saltHex = Inr salt \<and> argon2_hash L p salt = Some raw \<and>
                b = (toHexString raw = h))" (is "?l \<longleftrightarrow> ?r")
proof
  assume ?l
  from rethrow_InrD [OF this [unfolded VerifyUserPassword_def]] show ?r
    by (auto simp: seq_def call_def VerifyPassword_Inr split: sum.splits)
next
  assume ?r
  then show ?l unfolding VerifyUserPassword_def
    by (auto simp: seq_def call_def VerifyPassword_Inr intro!: rethrow_Inr)
qed

section \<open>The interface\<close>

text \<open>
  \<open>hash\<close> gives a hash and a salt, \<open>encode\<close> the text the salt is stored as, and \<open>verify\<close> checks a
  password against the stored pair: the password that was hashed verifies, from any later state,
  and a verification that answers leaves the state as it is. A second password verifies against
  a stored pair exactly when it has the same hash under the same salt, \<open>digest\<close>.
\<close>

locale password_hasher =
  fixes hash :: "string \<Rightarrow> ('s, string \<times> 'salt) prog"
    and verify :: "string \<Rightarrow> string \<Rightarrow> string \<Rightarrow> ('s, bool) prog"
    and encode :: "'salt \<Rightarrow> string"
    and digest :: "string \<Rightarrow> 'salt \<Rightarrow> string option"
  assumes hash_digest: "hash p s = (Inr (h, salt), t) \<Longrightarrow> digest p salt = Some h"
    and verify_digest: "digest p salt = Some d \<Longrightarrow> verify h (encode salt) p s = (Inr (d = h), s)"
    and verify_throws: "digest p salt = None \<Longrightarrow> \<exists>e. fst (verify h (encode salt) p s) = Inl e"
begin

lemma verify_hashed:
  assumes "hash p s = (Inr (h, salt), t)"
  shows "verify h (encode salt) p u = (Inr True, u)"
  using verify_digest [OF hash_digest [OF assms], of h u] by simp

lemma verify_other:
  assumes "hash p s = (Inr (h, salt), t)" and "digest q salt \<noteq> digest p salt"
  shows "fst (verify h (encode salt) q u) \<noteq> Inr True"
proof (cases "digest q salt")
  case None
  with verify_throws show ?thesis by (metis Inl_Inr_False)
next
  case (Some d)
  with verify_digest [OF this, of h u] assms(2) hash_digest [OF assms(1)] show ?thesis by auto
qed

end

interpretation pw: password_hasher "HashPasswordWithArgon2 L" "VerifyUserPassword L" toHexString
    "\<lambda>p salt. map_option toHexString (argon2_hash L p salt)"
  for L :: "('j, 'd) lib"
proof (unfold_locales, goal_cases)
  case (1 p s h salt t)
  then show ?case by (auto simp: HashPassword_Inr)
next
  case (2 p salt d h s)
  then show ?case by (auto simp: VerifyUserPassword_Inr hex.decode_encode)
next
  case (3 p salt h s)
  show ?case
  proof (cases "VerifyUserPassword L h (toHexString salt) p s")
    case (Pair r t)
    with 3 show ?thesis
      by (cases r) (auto simp: VerifyUserPassword_Inr hex.decode_encode)
  qed
qed

end
