(* ===== verification/JWTHelper.thy ===== *)
theory JWTHelper
  imports Http PasswordHelper
begin

text \<open>
  \<^verbatim>\<open>src/Security/JWTHelper.{h,cc}\<close> and \<^verbatim>\<open>app/Middleware/AuthenticationMiddleware.h\<close>: issuing tokens,
  verifying them, checking the \<open>Authorization\<close> field of a request, and the wrapper that runs a handler
  for authenticated requests only.
\<close>

section \<open>JWTHelper\<close>

definition jwt_site :: "int \<Rightarrow> string \<Rightarrow> site" where
  "jwt_site line fn = (''src/Security/JWTHelper.cc'', line, fn)"

definition token_lifetime :: nat where
  "token_lifetime = 3 * 60 * ticks_per_second"

definition CreateJWTToken :: "('j, 'd) lib \<Rightarrow> string \<Rightarrow> ('a sys_scheme, string) prog" where
  "CreateJWTToken L username =
     rethrow L (jwt_site 41 ''CreateJWTToken'') ''Error while trying to create JWT token''
       (seq system_now (\<lambda>now.
        let expTime = now + token_lifetime in
        call (jwt_sign L (secret_key L)
          \<lparr>jwt_type = ''JWS'', jwt_issuer = project_name L, jwt_issued_at = now, jwt_expires_at = expTime,
           jwt_payload = [(''username'', username)]\<rparr>)))"

text \<open>The verifier reads the clock when it verifies.\<close>

definition VerifyToken :: "('j, 'd) lib \<Rightarrow> string \<Rightarrow> ('a sys_scheme, bool) prog" where
  "VerifyToken L token =
     catch
       (seq (call (jwt_decode L token)) (\<lambda>decoded.
        seq system_now (\<lambda>now.
        seq (call (jwt_verify L (secret_key L) (project_name L) now decoded)) (\<lambda>_.
        ret True))))
       is_std
       (\<lambda>e. seq (LOG L ERROR (''Error while trying to verify token. Error: '' @ what e)
                  (jwt_site 64 ''VerifyToken'')) (\<lambda>_.
            ret False))"

definition json_type :: string where
  "json_type = ''application/json''"

text \<open>\<open>token.find("Bearer ") != 0\<close> holds unless the value starts with that word.\<close>

definition ValidateToken :: "('j, 'd) lib \<Rightarrow> http_request \<Rightarrow> ('a app_scheme, bool) prog" where
  "ValidateToken L req =
     catch
       (case req_find req ''Authorization'' of
          None \<Rightarrow> seq (reply Status_unauthorized json_type (Inr ''Authorization header is missing'')) (\<lambda>_. ret False)
        | Some token \<Rightarrow>
            if \<not> starts_with ''Bearer '' token
            then seq (reply Status_unauthorized json_type (Inr ''Invalid token format'')) (\<lambda>_. ret False)
            else
              (let token = drop 7 token in
               seq (VerifyToken L token) (\<lambda>ok.
               if \<not> ok
               then seq (reply Status_unauthorized json_type (Inr ''Invalid or expired token'')) (\<lambda>_. ret False)
               else ret True)))
       is_std
       (\<lambda>e. seq (LOG L ERROR (''Error while trying to validate token. Error: '' @ what e)
                  (jwt_site 114 ''ValidateToken'')) (\<lambda>_.
            ret False))"

section \<open>AuthenticationMiddleware\<close>

definition WithAuthentication :: "('j, 'd) lib \<Rightarrow> 'a app_scheme handler \<Rightarrow> 'a app_scheme handler" where
  "WithAuthentication L func = (\<lambda>req.
     seq (ValidateToken L req) (\<lambda>valid.
     if \<not> valid then reply Status_unauthorized json_type (Inr ''Invalid or missing token'')
     else func req))"

section \<open>Lemmas\<close>

lemma CreateJWTToken_Inr:
  "CreateJWTToken L u s = (Inr tok, t) \<longleftrightarrow>
     t = s\<lparr>clk_pos := Suc (clk_pos s)\<rparr> \<and>
     jwt_sign L (secret_key L)
       \<lparr>jwt_type = ''JWS'', jwt_issuer = project_name L, jwt_issued_at = clk_seq s (clk_pos s),
        jwt_expires_at = clk_seq s (clk_pos s) + token_lifetime, jwt_payload = [(''username'', u)]\<rparr> = Inr tok"
    (is "?l \<longleftrightarrow> ?r")
proof
  assume ?l
  from rethrow_InrD [OF this [unfolded CreateJWTToken_def]] show ?r
    by (auto simp: seq_def system_now_def Let_def call_def)
next
  assume ?r
  then show ?l unfolding CreateJWTToken_def
    by (intro rethrow_Inr) (simp add: seq_def system_now_def Let_def call_def)
qed

text \<open>\<open>VerifyToken\<close> says yes exactly when the library accepts the token now, and then it does not log.\<close>

definition accepts :: "('j, 'd) lib \<Rightarrow> string \<Rightarrow> nat \<Rightarrow> bool" where
  "accepts L tok now \<longleftrightarrow>
     (\<exists>d. jwt_decode L tok = Inr d \<and> jwt_verify L (secret_key L) (project_name L) now d = Inr ())"

lemma VerifyToken_True:
  "VerifyToken L tok s = (Inr True, t) \<longleftrightarrow>
     accepts L tok (clk_seq s (clk_pos s)) \<and> t = s\<lparr>clk_pos := Suc (clk_pos s)\<rparr>"
  by (auto simp: VerifyToken_def accepts_def catch_def seq_def call_def system_now_def ret_def
      split: sum.splits prod.splits if_splits)

lemma VerifyToken_reject:
  assumes "log_total L" and "lib_throws_std L" and "\<not> accepts L tok (clk_seq s (clk_pos s))"
  shows "fst (VerifyToken L tok s) = Inr False"
proof -
  have "wp (VerifyToken L tok) (\<lambda>r t. r = Inr False) s"
    unfolding VerifyToken_def
    by (rule wp_catch_LOG_ret)
       (use assms lib_throws_stdD [OF assms(2)] in
         \<open>auto simp: wp_rules accepts_def split: sum.splits\<close>)
  then show ?thesis by (simp add: wp_outcome)
qed

text \<open>What a request's \<open>Authorization\<close> field must be to pass at time \<open>now\<close>.\<close>

definition authorized :: "('j, 'd) lib \<Rightarrow> http_request \<Rightarrow> nat \<Rightarrow> bool" where
  "authorized L req now \<longleftrightarrow>
     (\<exists>tok. req_find req ''Authorization'' = Some (''Bearer '' @ tok) \<and> accepts L tok now)"

lemma starts_with_iff: "starts_with p s \<longleftrightarrow> (\<exists>r. s = p @ r)"
  unfolding starts_with_def by (metis append_eq_conv_conj append_take_drop_id)

lemma ValidateToken_True:
  "ValidateToken L req s = (Inr True, t) \<longleftrightarrow>
     authorized L req (clk_seq s (clk_pos s)) \<and> t = s\<lparr>clk_pos := Suc (clk_pos s)\<rparr>" (is "?l \<longleftrightarrow> ?r")
proof
  assume ?l
  then have "ValidateToken L req s = (Inr True, t)" .
  then show ?r
    by (auto simp: ValidateToken_def catch_def seq_def ret_def reply_Inr authorized_def starts_with_iff
        VerifyToken_True split: option.splits prod.splits sum.splits if_splits)
next
  assume r: ?r
  then obtain tok where tok: "req_find req ''Authorization'' = Some (''Bearer '' @ tok)"
      "accepts L tok (clk_seq s (clk_pos s))" by (auto simp: authorized_def)
  then have "VerifyToken L tok s = (Inr True, t)" using r VerifyToken_True by blast
  with tok(1) show ?l by (simp add: ValidateToken_def catch_def seq_def ret_def starts_with_def)
qed

lemma VerifyToken_keeps_res: "keeps app_res (VerifyToken L tok)"
  unfolding VerifyToken_def
  by (intro keeps_rules keeps_LOG keeps_system_now) (simp_all add: log_blind_def)

end
