(* ===== verification/UserService.thy ===== *)
theory UserService
  imports UserRepository JWTHelper
begin

text \<open>
  \<^verbatim>\<open>app/Services/UserService.h\<close>: registration and login. The service calls its repository through the
  interface \<open>IUserRepository\<close>; here that is a record of the two virtual functions, and what the
  service guarantees is proved in the locale \<open>user_service\<close> from the laws of the interface.
\<close>

section \<open>The service\<close>

record 's user_repo =
  vt_getUserByUsername :: "string \<Rightarrow> ('s, user option operation_result) prog"
  vt_createUser :: "user \<Rightarrow> ('s, user operation_result) prog"

definition us_site :: "int \<Rightarrow> string \<Rightarrow> site" where
  "us_site line fn = (''app/Services/UserService.h'', line, fn)"

definition invalid_json :: string where
  "invalid_json = ''Invalid JSON format''"

text \<open>The two handlers both functions end with, at \<open>line\<close> and five lines below.\<close>

definition service_catch ::
  "('j, 'd) lib \<Rightarrow> int \<Rightarrow> string \<Rightarrow> ('a sys_scheme, 'b response_dto) prog \<Rightarrow> ('a sys_scheme, 'b response_dto) prog" where
  "service_catch L line fn m =
     catch2 m
       is_json (\<lambda>e. seq (LOG L ERROR (what e) (us_site line fn)) (\<lambda>_. ret (ResponseDto_Failure invalid_json)))
       is_std (\<lambda>e. seq (LOG L ERROR (what e) (us_site (line + 5) fn)) (\<lambda>_. ret (ResponseDto_Failure generic_failure)))"

definition CreateUser ::
  "('j, 'd) lib \<Rightarrow> 'a sys_scheme user_repo \<Rightarrow> string \<Rightarrow> ('a sys_scheme, user_dto response_dto) prog" where
  "CreateUser L repo request = service_catch L 77 ''CreateUser''
     (seq (call (json_parse L request)) (\<lambda>jsonPayload.
      seq (call (json_at_string L jsonPayload ''username'')) (\<lambda>username.
      seq (call (json_at_string L jsonPayload ''password'')) (\<lambda>password.
      seq (HashPasswordWithArgon2 L password) (\<lambda>(hashedPassword, salt).
      let saltStr = toHexString salt;
          user = User username hashedPassword saltStr
      in seq (vt_createUser repo user) (\<lambda>creationResult.
         if IsSuccess creationResult
         then seq (CreateJWTToken L username) (\<lambda>token.
              ret (ResponseDto_Success \<lparr>dto_username = username, dto_token = token\<rparr>))
         else seq (call (GetErrorMessage creationResult)) (\<lambda>message.
              seq (LOG L INFO message (us_site 71 ''CreateUser'')) (\<lambda>_.
              seq (call (GetErrorMessage creationResult)) (\<lambda>message.
              ret (ResponseDto_Failure message))))))))))"

text \<open>The branch of \<open>UserLogin\<close> for a lookup that failed or gave no user.\<close>

definition login_not_found ::
  "('j, 'd) lib \<Rightarrow> user option operation_result \<Rightarrow> ('a sys_scheme, user_dto response_dto) prog" where
  "login_not_found L userResult =
     seq (call (GetErrorMessage userResult)) (\<lambda>message.
     seq (LOG L INFO message (us_site 104 ''UserLogin'')) (\<lambda>_.
     seq (call (GetErrorMessage userResult)) (\<lambda>message.
     ret (ResponseDto_Failure message))))"

definition wrong_password :: string where
  "wrong_password = ''Wrong username or password!''"

definition UserLogin ::
  "('j, 'd) lib \<Rightarrow> 'a sys_scheme user_repo \<Rightarrow> string \<Rightarrow> ('a sys_scheme, user_dto response_dto) prog" where
  "UserLogin L repo request = service_catch L 124 ''UserLogin''
     (seq (call (json_parse L request)) (\<lambda>jsonPayload.
      seq (call (json_at_string L jsonPayload ''username'')) (\<lambda>username.
      seq (call (json_at_string L jsonPayload ''password'')) (\<lambda>password.
      seq (vt_getUserByUsername repo username) (\<lambda>userResult.
      if \<not> IsSuccess userResult then login_not_found L userResult
      else seq (call (GetResult userResult)) (\<lambda>found.
        case found of
          None \<Rightarrow> login_not_found L userResult
        | Some user \<Rightarrow>
            seq (VerifyUserPassword L (getPasswordHash user) (getSalt user) password) (\<lambda>isLoginSuccess.
            if \<not> isLoginSuccess
            then seq (LOG L INFO (''Wrong username or password for user with username: '' @ getUsername user)
                        (us_site 114 ''UserLogin'')) (\<lambda>_.
                 ret (ResponseDto_Failure wrong_password))
            else seq (CreateJWTToken L (getUsername user)) (\<lambda>token.
                 ret (ResponseDto_Success \<lparr>dto_username = getUsername user, dto_token = token\<rparr>)))))))))"

section \<open>What the utilities touch\<close>

text \<open>
  Between the calls of the repository the service only logs, reads the clock and draws random
  numbers.
\<close>

definition sys_blank :: "'a sys_scheme \<Rightarrow> 'a sys_scheme" where
  "sys_blank s = s\<lparr>rng_pos := 0, clk_pos := 0, log_instance := None, log_stderr := []\<rparr>"

definition sys_touched :: "'a sys_scheme \<Rightarrow> 'a sys_scheme \<Rightarrow> bool" where
  "sys_touched s t \<longleftrightarrow> sys_blank t = sys_blank s"

lemma sys_touched_refl [simp]: "sys_touched s s"
  by (simp add: sys_touched_def)

lemma sys_touched_trans: "sys_touched s t \<Longrightarrow> sys_touched t u \<Longrightarrow> sys_touched s u"
  by (simp add: sys_touched_def)

definition touches :: "('a sys_scheme, 'b) prog \<Rightarrow> bool" where
  "touches m \<longleftrightarrow> (\<forall>s. sys_touched s (snd (m s)))"

lemma touches_iff: "touches m \<longleftrightarrow> (\<forall>s0. preserves (sys_touched s0) m)"
  unfolding touches_def preserves_def by (metis sys_touched_refl sys_touched_trans)

lemma touches_result: "touches m \<Longrightarrow> m s = (r, t) \<Longrightarrow> sys_touched s t"
  by (metis snd_conv touches_def)

lemma touched_updates:
  "sys_touched s t \<Longrightarrow> sys_touched s (t\<lparr>clk_pos := n\<rparr>)"
  "sys_touched s t \<Longrightarrow> sys_touched s (t\<lparr>rng_pos := n\<rparr>)"
  "sys_touched s t \<Longrightarrow> sys_touched s (t\<lparr>clk_pos := n, log_instance := i, log_stderr := e\<rparr>)"
  by (simp_all add: sys_touched_def sys_blank_def)

lemma preserves_touched_LOG: "preserves (sys_touched s0) (LOG L level message at)"
  by (rule preserves_LOG) (rule touched_updates)

lemma preserves_touched_now: "preserves (sys_touched s0) system_now"
  by (simp add: preserves_def system_now_def touched_updates)

lemma preserves_touched_fill: "preserves (sys_touched s0) (fill_bytes n)"
  by (simp add: preserves_def fill_bytes_eq touched_updates)

lemmas touched_rules = preserves_rules preserves_touched_LOG preserves_touched_now preserves_touched_fill

lemma touches_Hash: "touches (HashPasswordWithArgon2 L p)"
  unfolding touches_iff HashPasswordWithArgon2_def GenerateRandomSalt_def rethrow_def Let_def
  by (intro allI touched_rules)

lemma touches_Verify: "touches (VerifyUserPassword L h salt p)"
  unfolding touches_iff VerifyUserPassword_def VerifyPasswordWithArgon2_def rethrow_def Let_def
  by (intro allI touched_rules)

lemma touches_Token: "touches (CreateJWTToken L u)"
  unfolding touches_iff CreateJWTToken_def rethrow_def Let_def
  by (intro allI touched_rules)

lemma touches_LOG: "touches (LOG L level message at)"
  unfolding touches_iff by (intro allI touched_rules)

lemma wp_touches:
  assumes "touches m" and "\<And>r t. m s = (r, t) \<Longrightarrow> sys_touched s t \<Longrightarrow> Q r t"
  shows "wp m Q s"
  using assms by (auto simp: wp_def split: prod.splits dest: touches_result)

section \<open>The outcome of a handler\<close>

lemma wp_service_catch:
  assumes "wp m (\<lambda>r t. case r of
      Inl e \<Rightarrow> if is_std e
        then \<forall>r' u. sys_touched t u \<and> (log_total L \<longrightarrow>
                 r' = Inr (ResponseDto_Failure (if is_json e then invalid_json else generic_failure))) \<and>
               ((\<exists>msg. r' = Inr (ResponseDto_Failure msg)) \<or> (\<exists>ex. r' = Inl ex)) \<longrightarrow> Q r' u
        else Q (Inl e) t
    | Inr v \<Rightarrow> Q (Inr v) t) s"
  shows "wp (service_catch L line fn m) Q s"
  unfolding service_catch_def catch2_def wp_catch
proof (rule wp_conseq [OF assms], goal_cases)
  case (1 r t)
  show ?case
  proof (cases r)
    case (Inr v)
    with 1 show ?thesis by simp
  next
    case (Inl e)
    have t: "sys_touched t (t\<lparr>clk_pos := n, log_instance := i, log_stderr := er\<rparr>)" for n i er
      by (simp add: touched_updates)
    show ?thesis
    proof (cases "is_std e")
      case True
      with 1 Inl t show ?thesis
        by (cases "is_json e") (auto intro!: wp_LOG_ret)
    next
      case False
      with 1 Inl show ?thesis using is_json_std [of e] by auto
    qed
  qed
qed

section \<open>Guarantees of the service\<close>

text \<open>The user name and password of a request: what the two JSON reads give.\<close>

definition credentials :: "('j, 'd) lib \<Rightarrow> string \<Rightarrow> exn + (string \<times> string)" where
  "credentials L request = (case json_parse L request of
      Inl e \<Rightarrow> Inl e
    | Inr j \<Rightarrow> (case json_at_string L j ''username'' of
        Inl e \<Rightarrow> Inl e
      | Inr n \<Rightarrow> (case json_at_string L j ''password'' of
          Inl e \<Rightarrow> Inl e
        | Inr p \<Rightarrow> Inr (n, p))))"

lemma read_credentials:
  "seq (call (json_parse L request)) (\<lambda>j.
   seq (call (json_at_string L j ''username'')) (\<lambda>n.
   seq (call (json_at_string L j ''password'')) (\<lambda>p. f n p))) =
   (case credentials L request of Inl e \<Rightarrow> throw e | Inr (n, p) \<Rightarrow> f n p)"
  by (auto simp: credentials_def split: sum.splits)

lemma credentials_json: "json_throws_json L \<Longrightarrow> credentials L request = Inl e \<Longrightarrow> is_json e"
  by (auto simp: credentials_def json_throws_json_def split: sum.splits)

text \<open>
  A row made for a password: the salt is 16 bytes, and what is stored are the printed Argon2 hash
  and the printed salt, with which exactly the passwords of the same hash verify.
\<close>

definition row_for :: "('j, 'd) lib \<Rightarrow> string \<Rightarrow> string \<Rightarrow> user \<Rightarrow> bool" where
  "row_for L n p u \<longleftrightarrow> u_username u = n \<and>
     (\<exists>salt raw. length salt = 16 \<and> argon2_hash L p salt = Some raw \<and>
        u_passwordHash u = toHexString raw \<and> u_salt u = toHexString salt)"

lemma row_for_verifies:
  assumes "row_for L n p u"
  shows "VerifyUserPassword L (u_passwordHash u) (u_salt u) p s = (Inr True, s)"
  using assms by (auto simp: row_for_def VerifyUserPassword_Inr hex.decode_encode)

lemma row_for_id [simp]: "row_for L n p (u\<lparr>u_id := i\<rparr>) = row_for L n p u"
  by (simp add: row_for_def)

text \<open>A token the service issued for \<open>n\<close> at time \<open>now\<close>.\<close>

definition issued :: "('j, 'd) lib \<Rightarrow> string \<Rightarrow> nat \<Rightarrow> string \<Rightarrow> bool" where
  "issued L n now tok \<longleftrightarrow>
     jwt_sign L (secret_key L)
       \<lparr>jwt_type = ''JWS'', jwt_issuer = project_name L, jwt_issued_at = now,
        jwt_expires_at = now + token_lifetime, jwt_payload = [(''username'', n)]\<rparr> = Inr tok"

lemma CreateJWTToken_issued: "CreateJWTToken L n s = (Inr tok, t) \<Longrightarrow> issued L n (clk_seq s (clk_pos s)) tok"
  by (simp add: CreateJWTToken_Inr issued_def)

text \<open>
  The state the repository works on is an extension of \<open>sys\<close>, and nothing the repository promises
  depends on the clock, the generator or the log.
\<close>

locale user_service = user_repository get_user create_user rows wf calm room
  for get_user :: "string \<Rightarrow> ('a sys_scheme, user option operation_result) prog"
    and create_user :: "user \<Rightarrow> ('a sys_scheme, user operation_result) prog"
    and rows :: "'a sys_scheme \<Rightarrow> user list"
    and wf :: "'a sys_scheme \<Rightarrow> bool"
    and calm :: "'a sys_scheme \<Rightarrow> bool"
    and room :: "'a sys_scheme \<Rightarrow> bool" +
  assumes touched: "sys_touched s t \<Longrightarrow> rows t = rows s \<and> wf t = wf s \<and> calm t = calm s \<and> room t = room s"
begin

abbreviation repo :: "'a sys_scheme user_repo" where
  "repo \<equiv> \<lparr>vt_getUserByUsername = get_user, vt_createUser = create_user\<rparr>"

text \<open>What registration leaves, whatever fails, and what a success means.\<close>

definition created :: "('j, 'd) lib \<Rightarrow> string \<Rightarrow> 'a sys_scheme \<Rightarrow> 'a sys_scheme \<Rightarrow> bool" where
  "created L request s t \<longleftrightarrow> wf t \<and>
     (\<exists>n p u. credentials L request = Inr (n, p) \<and> row_for L n p u \<and> rows t = rows s @ [u] \<and>
       (calm s \<longrightarrow> n \<notin> u_username ` set (rows s)))"

definition untouched :: "'a sys_scheme \<Rightarrow> 'a sys_scheme \<Rightarrow> bool" where
  "untouched s t \<longleftrightarrow> wf t \<and> rows t = rows s"

lemma untouched_touched: "untouched s t \<Longrightarrow> sys_touched t u \<Longrightarrow> untouched s u"
  by (auto simp: untouched_def dest: touched)

lemma created_touched: "created L request s t \<Longrightarrow> sys_touched t u \<Longrightarrow> created L request s u"
  by (auto simp: created_def dest: touched)

text \<open>
  What a service function leaves and answers: \<open>P\<close> of the state whatever happens, \<open>S\<close> when it reports
  success. Logging and signing keep a \<open>P\<close> that does not look at clock, generator and log.
\<close>

definition answered ::
  "('a sys_scheme \<Rightarrow> bool) \<Rightarrow> (user_dto response_dto \<Rightarrow> 'a sys_scheme \<Rightarrow> bool)
     \<Rightarrow> exn + user_dto response_dto \<Rightarrow> 'a sys_scheme \<Rightarrow> bool" where
  "answered P S r t \<longleftrightarrow> P t \<and> (\<forall>d. r = Inr d \<longrightarrow> isSuccess d \<longrightarrow> S d t)"

definition stable :: "('a sys_scheme \<Rightarrow> bool) \<Rightarrow> bool" where
  "stable P \<longleftrightarrow> (\<forall>t u. P t \<longrightarrow> sys_touched t u \<longrightarrow> P u)"

lemma answered_throw: "P t \<Longrightarrow> wp (throw e) (answered P S) t"
  by (simp add: wp_throw answered_def)

lemma answered_LOG:
  "stable P \<Longrightarrow> P t \<Longrightarrow> wp (seq (LOG L level message at) (\<lambda>_. ret (ResponseDto_Failure m))) (answered P S) t"
  by (auto simp: wp_seq wp_ret answered_def stable_def intro!: wp_touches [OF touches_LOG] split: sum.split)

lemma answered_token:
  assumes "stable P" and "P t" and "\<And>tok now u. issued L n now tok \<Longrightarrow> sys_touched t u \<Longrightarrow>
    S (ResponseDto_Success \<lparr>dto_username = n, dto_token = tok\<rparr>) u"
  shows "wp (seq (CreateJWTToken L n) (\<lambda>token. ret (ResponseDto_Success \<lparr>dto_username = n, dto_token = token\<rparr>)))
    (answered P S) t"
  using assms by (auto simp: wp_seq wp_ret answered_def stable_def intro!: wp_touches [OF touches_Token]
      dest: CreateJWTToken_issued split: sum.split)

lemma answered_service:
  assumes "stable P" and "wp m (answered P S) s"
  shows "wp (service_catch L line fn m) (answered P S) s"
proof (rule wp_service_catch, rule wp_conseq [OF assms(2)], goal_cases)
  case (1 r t)
  with assms(1) show ?case by (cases r) (auto simp: answered_def stable_def)
qed

abbreviation create_leaves :: "('j, 'd) lib \<Rightarrow> string \<Rightarrow> 'a sys_scheme \<Rightarrow> 'a sys_scheme \<Rightarrow> bool" where
  "create_leaves L request s t \<equiv> untouched s t \<or> created L request s t"

abbreviation create_answers :: "('j, 'd) lib \<Rightarrow> string \<Rightarrow> 'a sys_scheme \<Rightarrow> user_dto response_dto \<Rightarrow> 'a sys_scheme \<Rightarrow> bool" where
  "create_answers L request s d t \<equiv> created L request s t \<and>
     (\<exists>n p tok now. credentials L request = Inr (n, p) \<and> issued L n now tok \<and>
        d = ResponseDto_Success \<lparr>dto_username = n, dto_token = tok\<rparr>)"

lemma create_leaves_stable: "stable (create_leaves L request s)"
  by (auto simp: stable_def dest: untouched_touched created_touched)

text \<open>The call of the repository, and what is answered to its result.\<close>

lemma CreateUser_stored:
  assumes "wf t" and "rows t = rows s" and "calm t = calm s" and "row_for L n p u"
    and "credentials L request = Inr (n, p)" and "create_user u t = (c, t2)"
  shows "create_leaves L request s t2" and "c = Inr v \<Longrightarrow> IsSuccess v \<Longrightarrow> created L request s t2"
proof -
  have name: "u_username u = n" using assms(4) by (simp add: row_for_def)
  have taken: "rows t2 = rows s \<and> (\<exists>m. c = Inr (FailureResult m))" if "calm s" "n \<in> u_username ` set (rows s)"
    using calm_exists [OF assms(1), of u] that assms(3,6) name by (auto simp: assms(2))
  show "create_leaves L request s t2"
    using create_rows [OF assms(1,6)] create_wf [OF assms(1,6)] assms(2,4,5) taken
    by (auto simp: untouched_def created_def)
  show "created L request s t2" if "c = Inr v" "IsSuccess v"
    using create_success [OF assms(1) assms(6) [unfolded that(1)] that(2)] create_wf [OF assms(1,6)] assms(2,4,5) taken that
    by (auto simp: created_def)
qed

lemma CreateUser_reply:
  assumes "wf t" and "rows t = rows s" and "calm t = calm s" and "row_for L n p u" and "credentials L request = Inr (n, p)"
  shows "wp (seq (vt_createUser repo u) (\<lambda>creationResult.
         if IsSuccess creationResult
         then seq (CreateJWTToken L n) (\<lambda>token. ret (ResponseDto_Success \<lparr>dto_username = n, dto_token = token\<rparr>))
         else seq (call (GetErrorMessage creationResult)) (\<lambda>message.
              seq (LOG L INFO message (us_site 71 ''CreateUser'')) (\<lambda>_.
              seq (call (GetErrorMessage creationResult)) (\<lambda>message. ret (ResponseDto_Failure message))))))
    (answered (create_leaves L request s) (create_answers L request s)) t"
proof -
  obtain c t2 where c: "create_user u t = (c, t2)" by fastforce
  note stored = CreateUser_stored [OF assms c]
  show ?thesis
  proof (cases c)
    case (Inl e)
    with c stored(1) show ?thesis by (simp add: wp_def seq_def answered_def)
  next
    case (Inr v)
    show ?thesis
    proof (cases "IsSuccess v")
      case True
      have "wp (seq (CreateJWTToken L n) (\<lambda>token. ret (ResponseDto_Success \<lparr>dto_username = n, dto_token = token\<rparr>)))
          (answered (create_leaves L request s) (create_answers L request s)) t2"
        by (rule answered_token [OF create_leaves_stable stored(1)])
           (use stored(2) [OF Inr True] created_touched assms(5) in blast)
      with c Inr True show ?thesis by (simp add: wp_def seq_def)
    next
      case False
      then obtain m where "v = FailureResult m" using create_failure [OF assms(1)] c Inr by blast
      with c Inr answered_LOG [OF create_leaves_stable stored(1), of L INFO m "us_site 71 ''CreateUser''" m
          "create_answers L request s"]
      show ?thesis by (simp add: wp_def seq_def call_def ret_def)
    qed
  qed
qed

lemma CreateUser_wp:
  assumes "wf s"
  shows "wp (CreateUser L repo request) (answered (create_leaves L request s) (create_answers L request s)) s"
  unfolding CreateUser_def read_credentials
proof (rule answered_service [OF create_leaves_stable])
  have self: "untouched s s" using assms by (simp add: untouched_def)
  then have here: "create_leaves L request s s" ..
  show "wp (case credentials L request of Inl e \<Rightarrow> throw e | Inr (username, password) \<Rightarrow>
      seq (HashPasswordWithArgon2 L password) (\<lambda>(hashedPassword, salt).
      let saltStr = toHexString salt; user = User username hashedPassword saltStr
      in seq (vt_createUser repo user) (\<lambda>creationResult.
         if IsSuccess creationResult
         then seq (CreateJWTToken L username) (\<lambda>token.
              ret (ResponseDto_Success \<lparr>dto_username = username, dto_token = token\<rparr>))
         else seq (call (GetErrorMessage creationResult)) (\<lambda>message.
              seq (LOG L INFO message (us_site 71 ''CreateUser'')) (\<lambda>_.
              seq (call (GetErrorMessage creationResult)) (\<lambda>message.
              ret (ResponseDto_Failure message)))))))
    (answered (create_leaves L request s) (create_answers L request s)) s"
  proof (cases "credentials L request")
    case (Inl e)
    show ?thesis unfolding Inl sum.case using here by (rule answered_throw)
  next
    case (Inr np)
    obtain n p where np: "credentials L request = Inr (n, p)" using Inr by (cases np) auto
    show ?thesis
      unfolding np sum.case prod.case wp_seq [of "HashPasswordWithArgon2 L p"]
    proof (rule wp_touches [OF touches_Hash], goal_cases)
      case (1 r t)
      show ?case
      proof (cases r)
        case (Inl e)
        with 1(2) self show ?thesis by (auto simp: answered_def dest: untouched_touched)
      next
        case (Inr hs)
        obtain h salt where hs: "r = Inr (h, salt)" using Inr by (cases hs) auto
        have "row_for L n p (User n h (toHexString salt))"
          using 1(1) unfolding hs HashPassword_Inr row_for_def by (metis User_fields(2-4) length_next_bytes)
        with CreateUser_reply [of t s L n p] touched [OF 1(2)] assms np show ?thesis unfolding hs by (simp add: Let_def)
      qed
    qed
  qed
qed

lemma CreateUser_spec:
  assumes "wf s"
  shows "wp (CreateUser L repo request) (\<lambda>r t. (untouched s t \<or> created L request s t) \<and>
    (\<forall>d. r = Inr d \<longrightarrow> isSuccess d \<longrightarrow> created L request s t \<and>
       (\<exists>n p tok now. credentials L request = Inr (n, p) \<and> issued L n now tok \<and>
          d = ResponseDto_Success \<lparr>dto_username = n, dto_token = tok\<rparr>))) s"
  using CreateUser_wp [OF assms] unfolding answered_def .

text \<open>
  Login never changes the stored users; a success names a stored user whose stored hash the password
  of the request verifies against, and carries a token for that user.
\<close>

definition login_ok :: "('j, 'd) lib \<Rightarrow> string \<Rightarrow> 'a sys_scheme \<Rightarrow> user_dto response_dto \<Rightarrow> bool" where
  "login_ok L request s d \<longleftrightarrow>
     (\<exists>n p u tok now. credentials L request = Inr (n, p) \<and> u \<in> set (rows s) \<and> u_username u = n \<and>
        (\<exists>salt. fromHexString (u_salt u) = Inr salt \<and>
           map_option toHexString (argon2_hash L p salt) = Some (u_passwordHash u)) \<and>
        issued L n now tok \<and> d = ResponseDto_Success \<lparr>dto_username = n, dto_token = tok\<rparr>)"

lemma login_leaves_stable: "stable (untouched s)"
  by (auto simp: stable_def dest: untouched_touched)

text \<open>The check of the password, and what is answered to its outcome.\<close>

lemma UserLogin_reply:
  assumes "untouched s t" and "u \<in> set (rows s)" and "credentials L request = Inr (u_username u, p)"
  shows "wp (seq (VerifyUserPassword L (u_passwordHash u) (u_salt u) p) (\<lambda>isLoginSuccess.
            if \<not> isLoginSuccess
            then seq (LOG L INFO message (us_site 114 ''UserLogin'')) (\<lambda>_. ret (ResponseDto_Failure wrong_password))
            else seq (CreateJWTToken L (u_username u)) (\<lambda>token. ret (ResponseDto_Success \<lparr>dto_username = u_username u, dto_token = token\<rparr>))))
    (answered (untouched s) (\<lambda>d _. login_ok L request s d)) t"
  unfolding wp_seq [of "VerifyUserPassword _ _ _ _"]
proof (rule wp_touches [OF touches_Verify], goal_cases)
  case (1 r t2)
  have left: "untouched s t2" using 1(2) assms(1) untouched_touched by blast
  show ?case
  proof (cases r)
    case (Inl e)
    with left show ?thesis by (simp add: answered_def)
  next
    case (Inr ok)
    show ?thesis
    proof (cases ok)
      case False
      with answered_LOG [OF login_leaves_stable left] show ?thesis unfolding Inr by simp
    next
      case True
      then have "\<exists>salt. fromHexString (u_salt u) = Inr salt \<and>
          map_option toHexString (argon2_hash L p salt) = Some (u_passwordHash u)"
        using 1(1) unfolding Inr by (auto simp: VerifyUserPassword_Inr)
      then have "wp (seq (CreateJWTToken L (u_username u)) (\<lambda>token. ret (ResponseDto_Success \<lparr>dto_username = u_username u, dto_token = token\<rparr>)))
          (answered (untouched s) (\<lambda>d _. login_ok L request s d)) t2"
        using assms(2,3) by (intro answered_token login_leaves_stable left) (auto simp: login_ok_def)
      with True show ?thesis unfolding Inr by simp
    qed
  qed
qed

lemma UserLogin_found:
  assumes "wf s" and "credentials L request = Inr (n, p)" and "get_user n s = (Inr v, t)"
  shows "wp (if \<not> IsSuccess v then login_not_found L v
      else seq (call (GetResult v)) (\<lambda>found.
        case found of
          None \<Rightarrow> login_not_found L v
        | Some user \<Rightarrow>
            seq (VerifyUserPassword L (getPasswordHash user) (getSalt user) p) (\<lambda>isLoginSuccess.
            if \<not> isLoginSuccess
            then seq (LOG L INFO (''Wrong username or password for user with username: '' @ getUsername user)
                        (us_site 114 ''UserLogin'')) (\<lambda>_.
                 ret (ResponseDto_Failure wrong_password))
            else seq (CreateJWTToken L (getUsername user)) (\<lambda>token.
                 ret (ResponseDto_Success \<lparr>dto_username = getUsername user, dto_token = token\<rparr>)))))
    (answered (untouched s) (\<lambda>d _. login_ok L request s d)) t"
proof -
  have left: "untouched s t" using get_pure [OF assms(1,3)] by (simp add: untouched_def)
  show ?thesis
  proof (cases "IsSuccess v")
    case False
    then obtain m where "v = FailureResult m" using get_failure [OF assms(1,3)] by blast
    with answered_LOG [OF login_leaves_stable left] show ?thesis by (simp add: login_not_found_def)
  next
    case True
    then obtain u where u: "v = SuccessResult (Some u)" "u \<in> set (rows s)" "u_username u = n"
      using get_success [OF assms(1,3)] by blast
    show ?thesis unfolding u(1) user_getters using UserLogin_reply [OF left u(2), of L request p] assms(2) u(3) by simp
  qed
qed

lemma UserLogin_wp:
  assumes "wf s"
  shows "wp (UserLogin L repo request) (answered (untouched s) (\<lambda>d _. login_ok L request s d)) s"
  unfolding UserLogin_def read_credentials
proof (rule answered_service [OF login_leaves_stable], cases "credentials L request", goal_cases)
  case (1 e)
  have "untouched s s" using assms by (simp add: untouched_def)
  then show ?case unfolding 1 sum.case by (rule answered_throw)
next
  case (2 np)
  obtain n p where np: "credentials L request = Inr (n, p)" using 2 by (cases np) auto
  obtain g t where g: "get_user n s = (g, t)" by fastforce
  show ?case
  proof (cases g)
    case (Inl e)
    have "untouched s t" using get_pure [OF assms g] by (simp add: untouched_def)
    with Inl g show ?thesis unfolding np by (simp add: wp_def seq_def answered_def)
  next
    case (Inr v)
    have after: "wp (vt_getUserByUsername repo n) (\<lambda>r t'. r = Inr v \<and> t' = t) s" by (simp add: wp_def g Inr)
    show ?thesis
      unfolding np sum.case prod.case wp_seq [of "vt_getUserByUsername repo n"]
      using UserLogin_found [OF assms np g [unfolded Inr]] by (intro wp_conseq [OF after]) simp
  qed
qed

lemma UserLogin_spec:
  assumes "wf s"
  shows "wp (UserLogin L repo request) (\<lambda>r t. untouched s t \<and>
    (\<forall>d. r = Inr d \<longrightarrow> isSuccess d \<longrightarrow> login_ok L request s d)) s"
  using UserLogin_wp [OF assms] unfolding answered_def .

section \<open>When nothing fails\<close>

lemma calm_touched: "calm s \<Longrightarrow> sys_touched s t \<Longrightarrow> calm t"
  using touched by blast

text \<open>The branches of a login.\<close>

lemma UserLogin_unknown:
  assumes "wf s" and "calm s" and "log_total L" and "credentials L request = Inr (n, p)"
    and "user_with n (rows s) = None"
  shows "fst (UserLogin L repo request s) =
    Inr (ResponseDto_Failure (''Failed to find user with username: '' @ n))"
proof -
  obtain t where t: "get_user n s = (Inr (FailureResult (''Failed to find user with username: '' @ n)), t)"
    using calm_get [OF assms(1,2), of n] assms(5) by (auto simp: lookup_result_def)
  let ?m = "''Failed to find user with username: '' @ n"
  obtain t2 where t2: "LOG L INFO ?m (us_site 104 ''UserLogin'') t = (Inr (), t2)"
    by (metis LOG_fst [OF assms(3)] prod.collapse)
  show ?thesis
    unfolding UserLogin_def read_credentials assms(4)
    using t t2 by (simp add: service_catch_def catch2_def catch_def seq_def login_not_found_def ret_def call_def)
qed

lemma UserLogin_wrong:
  assumes "wf s" and "calm s" and "log_total L" and "credentials L request = Inr (n, p)"
    and "user_with n (rows s) = Some u"
    and "\<And>t :: 'a sys_scheme. VerifyUserPassword L (u_passwordHash u) (u_salt u) p t = (Inr False, t)"
  shows "fst (UserLogin L repo request s) = Inr (ResponseDto_Failure wrong_password)"
proof -
  obtain t where t: "get_user n s = (Inr (SuccessResult (Some u)), t)"
    using calm_get [OF assms(1,2), of n] assms(5) by (auto simp: lookup_result_def)
  let ?m = "''Wrong username or password for user with username: '' @ u_username u"
  obtain t2 where t2: "LOG L INFO ?m (us_site 114 ''UserLogin'') t = (Inr (), t2)"
    by (metis LOG_fst [OF assms(3)] prod.collapse)
  show ?thesis
    unfolding UserLogin_def read_credentials assms(4)
    using t t2 assms(6) by (simp add: service_catch_def catch2_def catch_def seq_def ret_def call_def)
qed

lemma UserLogin_right:
  assumes "wf s" and "calm s" and "credentials L request = Inr (n, p)"
    and "user_with n (rows s) = Some u"
    and "\<And>t :: 'a sys_scheme. VerifyUserPassword L (u_passwordHash u) (u_salt u) p t = (Inr True, t)"
    and "\<And>now. \<exists>tok. issued L n now tok"
  shows "\<exists>tok now t. UserLogin L repo request s =
      (Inr (ResponseDto_Success \<lparr>dto_username = n, dto_token = tok\<rparr>), t) \<and> issued L n now tok"
proof -
  obtain t where t: "get_user n s = (Inr (SuccessResult (Some u)), t)"
    using calm_get [OF assms(1,2), of n] assms(4) by (auto simp: lookup_result_def)
  have n: "u_username u = n" using user_with_Some [OF assms(4)] by simp
  obtain tok where tok: "issued L n (clk_seq t (clk_pos t)) tok" using assms(6) by blast
  then have "CreateJWTToken L n t = (Inr tok, t\<lparr>clk_pos := Suc (clk_pos t)\<rparr>)"
    by (simp add: CreateJWTToken_Inr issued_def)
  then show ?thesis
    unfolding UserLogin_def read_credentials assms(3)
    using t assms(5) tok n
    by (auto simp: service_catch_def catch2_def catch_def seq_def ret_def call_def)
qed

text \<open>A free name is registered.\<close>

lemma CreateUser_fresh:
  assumes "wf s" and "calm s" and "room s" and "credentials L request = Inr (n, p)"
    and "n \<notin> u_username ` set (rows s)"
    and "rng_error s = None" and "\<And>salt. argon2_hash L p salt \<noteq> None" and "\<And>now. \<exists>tok. issued L n now tok"
  shows "\<exists>tok now t. CreateUser L repo request s =
      (Inr (ResponseDto_Success \<lparr>dto_username = n, dto_token = tok\<rparr>), t) \<and> issued L n now tok"
proof -
  obtain h salt t where h: "HashPasswordWithArgon2 L p s = (Inr (h, salt), t)"
    using assms(6) assms(7) [of "next_bytes s 16"] by (auto simp: HashPassword_Inr)
  define u where "u = User n h (toHexString salt)"
  note same = touched [OF touches_result [OF touches_Hash h]]
  obtain t2 where c: "create_user u t = (Inr (SuccessResult u), t2)"
    using calm_fresh [of t u] same assms(1-3,5) by (auto simp: u_def)
  obtain tok where tok: "issued L n (clk_seq t2 (clk_pos t2)) tok" using assms(8) by blast
  then have "CreateJWTToken L n t2 = (Inr tok, t2\<lparr>clk_pos := Suc (clk_pos t2)\<rparr>)"
    by (simp add: CreateJWTToken_Inr issued_def)
  then show ?thesis
    unfolding CreateUser_def read_credentials assms(4)
    using h c tok
    by (auto simp: service_catch_def catch2_def catch_def seq_def ret_def Let_def u_def)
qed

text \<open>A user who has just registered can log in with the same password.\<close>

lemma CreateUser_calm:
  assumes "calm s" and "CreateUser L repo request s = (out, t)"
  shows "calm t"
proof -
  have mono: "preserves calm m" if "touches m" for m :: "('a sys_scheme, 'z) prog"
    using that unfolding preserves_def touches_def by (blast intro: calm_touched)
  have create: "preserves calm (create_user u)" for u
    unfolding preserves_def by (metis calm_create prod.collapse)
  have "preserves calm (CreateUser L repo request)"
    unfolding CreateUser_def service_catch_def Let_def user_repo.simps
    by (intro preserves_rules create mono [OF touches_LOG] mono [OF touches_Hash] mono [OF touches_Token])
  then show ?thesis using assms by (rule preserves_result)
qed

lemma register_then_login:
  assumes "wf s" and "calm s" and "CreateUser L repo request s = (Inr d, t)" and "isSuccess d"
    and "credentials L request' = credentials L request" and "\<And>n now. \<exists>tok. issued L n now tok"
  shows "\<exists>n p tok now t'. credentials L request = Inr (n, p) \<and> issued L n now tok \<and>
    UserLogin L repo request' t = (Inr (ResponseDto_Success \<lparr>dto_username = n, dto_token = tok\<rparr>), t')"
proof -
  have "created L request s t" using wpD [OF CreateUser_spec [OF assms(1)] assms(3)] assms(4) by blast
  then obtain n p u where u: "credentials L request = Inr (n, p)" "row_for L n p u" "rows t = rows s @ [u]"
      "n \<notin> u_username ` set (rows s)" "wf t"
    using assms(2) by (auto simp: created_def)
  have "user_with n (rows s) = None" using u(4) by (simp add: user_with_None)
  then have "user_with n (rows t) = Some u"
    using u(2) unfolding u(3) user_with_def find_filter by (simp add: row_for_def split: list.splits)
  from UserLogin_right [OF u(5) CreateUser_calm [OF assms(2,3)] _ this row_for_verifies [OF u(2)] assms(6)]
  show ?thesis using u(1) assms(5) by metis
qed

end

section \<open>The service over the user repository\<close>

lemma touched_db:
  fixes s t :: "'a dbsys_scheme"
  assumes "sys_touched s t"
  shows "db_rows t = db_rows s" "db_seq t = db_seq s" "db_tx t = db_tx s" "db_faults t = db_faults s"
  using arg_cong [OF assms [unfolded sys_touched_def sys_blank_def], of db_rows]
    arg_cong [OF assms [unfolded sys_touched_def sys_blank_def], of db_seq]
    arg_cong [OF assms [unfolded sys_touched_def sys_blank_def], of db_tx]
    arg_cong [OF assms [unfolded sys_touched_def sys_blank_def], of db_faults]
  by simp_all

interpretation service: user_service "getUserByUsername L" "createUser L" db_rows table_wf faultless
    "\<lambda>s. db_seq s \<le> max_serial"
  for L :: "('j, 'd) lib"
  by unfold_locales (auto simp: touched_db table_wf_def faultless_def)

definition user_repository_on :: "('a dbsys_scheme) object_db \<Rightarrow> ('j, 'd) lib \<Rightarrow> 'a dbsys_scheme user_repo" where
  "user_repository_on db L = \<lparr>vt_getUserByUsername = ur_getUserByUsername db L, vt_createUser = ur_createUser db L\<rparr>"

definition user_repository_of :: "('j, 'd) lib \<Rightarrow> 'a dbsys_scheme user_repo" where
  user_repository_table: "user_repository_of L = user_repository_on table_db L"

lemma user_repository_of_def:
  "user_repository_of L = \<lparr>vt_getUserByUsername = getUserByUsername L, vt_createUser = createUser L\<rparr>"
  by (simp add: user_repository_table user_repository_on_def getUserByUsername_repo createUser_repo)

text \<open>What leaves a handler: nothing the logger did not let out, and the same answer to every JSON error.\<close>

lemma service_catch_escapes:
  assumes "log_total L" and "service_catch L line fn m s = (Inl e, t)"
  shows "\<not> is_std e"
proof -
  have "wp (service_catch L line fn m) (\<lambda>r t. \<forall>e. r = Inl e \<longrightarrow> \<not> is_std e) s"
    by (rule wp_service_catch) (use assms(1) in \<open>auto simp: wp_def split: prod.splits sum.splits\<close>)
  from wpD [OF this assms(2)] show ?thesis by simp
qed

lemma service_catch_json:
  assumes "log_total L" and "is_json e"
  shows "wp (service_catch L line fn (throw e)) (\<lambda>r t. r = Inr (ResponseDto_Failure invalid_json) \<and> sys_touched s t) s"
  by (rule wp_service_catch) (use assms in \<open>auto simp: wp_throw\<close>)

lemma CreateUser_bad_request:
  assumes "log_total L" and "credentials L request = Inl e" and "is_json e"
  shows "wp (CreateUser L repo request) (\<lambda>r t. r = Inr (ResponseDto_Failure invalid_json) \<and> sys_touched s t) s"
  unfolding CreateUser_def read_credentials assms(2) sum.case by (rule service_catch_json) fact+

lemma UserLogin_bad_request:
  assumes "log_total L" and "credentials L request = Inl e" and "is_json e"
  shows "wp (UserLogin L repo request) (\<lambda>r t. r = Inr (ResponseDto_Failure invalid_json) \<and> sys_touched s t) s"
  unfolding UserLogin_def read_credentials assms(2) sum.case by (rule service_catch_json) fact+

lemma services_escape:
  assumes "log_total L"
  shows "CreateUser L repo request s = (Inl e, t) \<Longrightarrow> \<not> is_std e"
    and "UserLogin L repo request s = (Inl e, t) \<Longrightarrow> \<not> is_std e"
  unfolding CreateUser_def UserLogin_def by (rule service_catch_escapes [OF assms], assumption)+

end
