(* ===== verification/Controllers.thy ===== *)
theory Controllers
  imports UserService
begin

text \<open>
  \<^verbatim>\<open>app/Controllers/UserController.h\<close>, \<^verbatim>\<open>app/Controllers/TestController.h\<close> and the router that
  \<^verbatim>\<open>app/main.cc\<close> builds with them: the HTTP interface of the application. The second half follows
  requests from \<open>handle_request\<close> down to the database and back.
\<close>

section \<open>The controllers\<close>

definition uc_site :: "int \<Rightarrow> string \<Rightarrow> site" where
  "uc_site line fn = (''app/Controllers/UserController.h'', line, fn)"

definition tc_site :: "int \<Rightarrow> string \<Rightarrow> site" where
  "tc_site line fn = (''app/Controllers/TestController.h'', line, fn)"

definition handleCreateUser ::
  "('j, 'd) lib \<Rightarrow> 'a app_scheme user_repo \<Rightarrow> 'a app_scheme handler" where
  "handleCreateUser L repo = (\<lambda>req. catch
     (seq (CreateUser L repo (req_body req)) (\<lambda>createUserResult.
      let jsonResponse = ResponseDto_toJson L (UserDto_toJson L) createUserResult in
      if isSuccess createUserResult
      then reply Status_ok json_type (json_dump L jsonResponse)
      else reply Status_bad_request json_type (json_dump L jsonResponse)))
     is_std (\<lambda>e. LOG L ERROR (what e) (uc_site 66 ''handleCreateUser'')))"

definition handleUserLogin ::
  "('j, 'd) lib \<Rightarrow> 'a app_scheme user_repo \<Rightarrow> 'a app_scheme handler" where
  "handleUserLogin L repo = (\<lambda>req. catch
     (seq (UserLogin L repo (req_body req)) (\<lambda>getUserResult.
      let jsonResponse = ResponseDto_toJson L (UserDto_toJson L) getUserResult in
      if isSuccess getUserResult
      then reply Status_ok json_type (json_dump L jsonResponse)
      else reply Status_bad_request json_type (json_dump L jsonResponse)))
     is_std (\<lambda>e. LOG L ERROR (what e) (uc_site 99 ''handleUserLogin'')))"

definition handleHelloWorld :: "('j, 'd) lib \<Rightarrow> 'a app_scheme handler" where
  "handleHelloWorld L = (\<lambda>req. catch
     (seq (call (json_parse L (req_body req))) (\<lambda>jsonPayload.
      seq (call (json_at_string L jsonPayload ''username'')) (\<lambda>username.
      let j = json_put L (json_null L) ''message'' (json_string L (''Hello '' @ username)) in
      reply Status_ok json_type (json_dump L j))))
     is_std (\<lambda>e. LOG L ERROR (what e) (tc_site 60 ''handleHelloWorld'')))"

text \<open>The constructors register the handlers.\<close>

definition new_UserController ::
  "('j, 'd) lib \<Rightarrow> 'a app_scheme user_repo \<Rightarrow> 'a app_scheme handler router \<Rightarrow> 'a app_scheme handler router" where
  "new_UserController L repo router =
     (let router = addRoute ''POST'' ''/user/create'' (handleCreateUser L repo) router
      in addRoute ''POST'' ''/user/login'' (handleUserLogin L repo) router)"

definition new_TestController ::
  "('j, 'd) lib \<Rightarrow> 'a app_scheme handler router \<Rightarrow> 'a app_scheme handler router" where
  "new_TestController L router =
     addRoute ''POST'' ''/test'' (WithAuthentication L (handleHelloWorld L)) router"

text \<open>\<open>httpRouter\<close> of \<open>main\<close>, on the operations \<open>db\<close> of its database object; \<open>main_router\<close> is that on the table.\<close>

definition main_router_on ::
  "('a app_scheme) object_db \<Rightarrow> ('j, 'd) lib \<Rightarrow> 'a app_scheme handler router" where
  "main_router_on db L =
     (let httpRouter = new_router;
          httpRouter = new_UserController L (user_repository_on db L) httpRouter
      in new_TestController L httpRouter)"

definition main_router :: "('j, 'd) lib \<Rightarrow> 'a app_scheme handler router" where
  "main_router L = main_router_on table_db L"

section \<open>Which handler answers\<close>

lemma route_key_unique:
  assumes "CHR '':'' \<notin> set n" and "CHR '':'' \<notin> set q"
  shows "route_key m p = route_key n q \<longleftrightarrow> m = n \<and> p = q"
proof
  assume eq: "route_key m p = route_key n q"
  have "length (filter (\<lambda>c. c = CHR '':'') (route_key m p)) = Suc 0"
    unfolding eq using assms by (auto simp: route_key_def filter_empty_conv)
  then have "CHR '':'' \<notin> set m"
    by (auto simp: route_key_def filter_empty_conv)
  then show "m = n \<and> p = q"
    using eq assms(1) using append_colon_inject [of m n p q] by (simp add: route_key_def)
qed simp

lemma find_main_router_on:
  "find_route (main_router_on db L) m p =
     (if m = ''POST'' \<and> p = ''/test'' then Some (WithAuthentication L (handleHelloWorld L))
      else if m = ''POST'' \<and> p = ''/user/login'' then Some (handleUserLogin L (user_repository_on db L))
      else if m = ''POST'' \<and> p = ''/user/create'' then Some (handleCreateUser L (user_repository_on db L))
      else None)"
  by (simp add: main_router_on_def new_TestController_def new_UserController_def Let_def
      find_route_def addRoute_def new_router_def route_key_unique)

lemmas find_main_router = find_main_router_on [where db = table_db, folded main_router_def user_repository_table]

section \<open>The two user endpoints\<close>

abbreviation dto_json :: "('j, 'd) lib \<Rightarrow> user_dto response_dto \<Rightarrow> 'j" where
  "dto_json L \<equiv> ResponseDto_toJson L (UserDto_toJson L)"

definition dto_status :: "'a response_dto \<Rightarrow> http_status" where
  "dto_status d = (if isSuccess d then Status_ok else Status_bad_request)"

text \<open>
  What both handlers do with the result of the service. A body that cannot be written leaves a
  response whose status and content type are set and whose payload was never prepared.
\<close>

lemma wp_endpoint:
  fixes m :: "('a app_scheme, user_dto response_dto) prog"
  assumes "lib_throws_std L"
    and "wp m (\<lambda>r t. case r of
      Inl e \<Rightarrow> if is_std e then \<forall>r' u. sys_touched t u \<and> (log_total L \<longrightarrow> r' = Inr ()) \<longrightarrow> Q r' u else Q (Inl e) t
    | Inr d \<Rightarrow> (\<forall>b. json_dump L (dto_json L d) = Inr b \<longrightarrow>
          Q (Inr ()) (t\<lparr>app_res := replied (dto_status d) json_type b (app_res t)\<rparr>)) \<and>
        (\<forall>e r' u. json_dump L (dto_json L d) = Inl e \<and>
           sys_touched (t\<lparr>app_res := (app_res t)\<lparr>res_status := dto_status d,
             res_fields := (res_fields (app_res t))(Content_type \<mapsto> json_type)\<rparr>\<rparr>) u \<and>
           (log_total L \<longrightarrow> r' = Inr ()) \<longrightarrow> Q r' u)) s"
  shows "wp (catch (seq m (\<lambda>d. if isSuccess d
        then reply Status_ok json_type (json_dump L (dto_json L d))
        else reply Status_bad_request json_type (json_dump L (dto_json L d))))
     is_std (\<lambda>e. LOG L ERROR (what e) (at e))) Q s"
  unfolding wp_catch wp_seq
proof (rule wp_conseq [OF assms(2)], goal_cases)
  case (1 r t)
  have logged: "wp (LOG L ERROR (what e) (at e)) Q t"
    if "\<And>r' u. sys_touched t u \<Longrightarrow> (log_total L \<Longrightarrow> r' = Inr ()) \<Longrightarrow> Q r' u" for e and t :: "'a app_scheme"
    by (rule wp_LOG) (use that in \<open>simp add: touched_updates\<close>)
  show ?case
  proof (cases r)
    case (Inl e)
    with 1 show ?thesis by (auto intro!: logged)
  next
    case (Inr d)
    show ?thesis
    proof (cases "json_dump L (dto_json L d)")
      case (Inl e)
      then have "is_std e" using lib_throws_stdD(3) [OF assms(1)] is_json_std by blast
      with 1 Inr Inl show ?thesis by (auto simp: wp_if wp_reply_Inl dto_status_def intro!: logged)
    next
      case Inr: (Inr b)
      with 1 \<open>r = Inr d\<close> show ?thesis by (auto simp: wp_if wp_reply dto_status_def)
    qed
  qed
qed

text \<open>Specifications of the two endpoints: what a request does to the users and what it is answered.\<close>

definition same_users :: "'a dbsys_scheme \<Rightarrow> 'a dbsys_scheme \<Rightarrow> bool" where
  "same_users s t \<longleftrightarrow> table_wf t \<and> db_rows t = db_rows s"

definition registered :: "('j, 'd) lib \<Rightarrow> string \<Rightarrow> 'a dbsys_scheme \<Rightarrow> 'a dbsys_scheme \<Rightarrow> bool" where
  "registered L body s t \<longleftrightarrow> table_wf t \<and>
     (\<exists>n p u. credentials L body = Inr (n, p) \<and> row_for L n p u \<and> db_rows t = db_rows s @ [u] \<and>
        (faultless s \<longrightarrow> n \<notin> u_username ` set (db_rows s)))"

definition token_answer :: "('j, 'd) lib \<Rightarrow> string \<Rightarrow> http_response \<Rightarrow> bool" where
  "token_answer L n res \<longleftrightarrow> (\<exists>tok now. issued L n now tok \<and>
     json_dump L (dto_json L (ResponseDto_Success \<lparr>dto_username = n, dto_token = tok\<rparr>)) = Inr (res_body res))"

lemma service_created [simp]:
  "service.created L body s t = registered L body s t" "service.untouched s t = same_users s t"
  by (auto simp: service.created_def registered_def service.untouched_def same_users_def)

lemma handler_state [simp]:
  "db_rows (s\<lparr>app_res := r\<rparr>) = db_rows s" "table_wf (s\<lparr>app_res := r\<rparr>) = table_wf s"
  "faultless (s\<lparr>app_res := r\<rparr>) = faultless s" "same_users s (t\<lparr>app_res := r\<rparr>) = same_users s t"
  "same_users (s\<lparr>app_res := r\<rparr>) t = same_users s t"
  "registered L body s (t\<lparr>app_res := r\<rparr>) = registered L body s t"
  "registered L body (s\<lparr>app_res := r\<rparr>) t = registered L body s t"
  by (simp_all add: table_wf_def faultless_def same_users_def registered_def)

lemma same_users_touched: "same_users s t \<Longrightarrow> sys_touched t u \<Longrightarrow> same_users s u"
  by (auto simp: same_users_def table_wf_def touched_db)

lemma registered_touched: "registered L body s t \<Longrightarrow> sys_touched t u \<Longrightarrow> registered L body s u"
  by (auto simp: registered_def table_wf_def touched_db)

lemma touched_res:
  fixes s t :: "'a app_scheme"
  assumes "sys_touched s t"
  shows "app_res t = app_res s"
  using arg_cong [OF assms [unfolded sys_touched_def sys_blank_def], of app_res] by simp

text \<open>Neither service looks at the response.\<close>

lemma repository_keeps_res:
  "preserves (\<lambda>s. app_res s = r) (getUserByUsername L n)"
  "preserves (\<lambda>s. app_res s = r) (createUser L u)"
proof -
  note rules = preserves_rules preserves_LOG preserves_modify preserves_at_exit
  have fault: "preserves (\<lambda>s. app_res s = r) next_fault"
    by (rule preserves_wp) (auto simp: wp_rules split: list.splits)
  have parts: "preserves (\<lambda>s. app_res s = r) commit" "preserves (\<lambda>s. app_res s = r) db_begin"
    "preserves (\<lambda>s. app_res s = r) (db_query q)" "preserves (\<lambda>s. app_res s = r) (db_persist v)" for q v
    unfolding db_defs by (intro rules fault; simp)+
  show get: "preserves (\<lambda>s. app_res s = r) (getUserByUsername L n)" for n
    unfolding getUserByUsername_def transaction_def by (intro rules parts) simp_all
  show "preserves (\<lambda>s. app_res s = r) (createUser L u)"
    unfolding createUser_def odb_Create_def odb_catch_def transaction_def by (intro rules get parts) simp_all
qed

lemma touches_keeps_res: "touches m \<Longrightarrow> preserves (\<lambda>s. app_res s = r) m"
  unfolding preserves_def touches_def using touched_res by blast

lemma services_keep_res:
  "preserves (\<lambda>s. app_res s = r) (CreateUser L (user_repository_of L) body)"
  "preserves (\<lambda>s. app_res s = r) (UserLogin L (user_repository_of L) body)"
  unfolding CreateUser_def UserLogin_def service_catch_def Let_def user_repository_of_def user_repo.simps login_not_found_def
  by (intro preserves_rules repository_keeps_res touches_keeps_res [OF touches_LOG] touches_keeps_res [OF touches_Hash]
      touches_keeps_res [OF touches_Token] touches_keeps_res [OF touches_Verify])+

text \<open>How an endpoint turns the service's result into a response.\<close>

definition answers :: "('j, 'd) lib \<Rightarrow> user_dto response_dto \<Rightarrow> http_response \<Rightarrow> http_response \<Rightarrow> bool" where
  "answers L d r0 r \<longleftrightarrow> (case json_dump L (dto_json L d) of
      Inr b \<Rightarrow> r = replied (dto_status d) json_type b r0
    | Inl _ \<Rightarrow> r = r0\<lparr>res_status := dto_status d, res_fields := (res_fields r0)(Content_type \<mapsto> json_type)\<rparr>)"

lemma endpoint_spec:
  fixes m :: "('a app_scheme, user_dto response_dto) prog"
  assumes "lib_throws_std L" and keep: "\<And>r. preserves (\<lambda>s. app_res s = r) m"
    and esc: "\<And>e t. log_total L \<Longrightarrow> m s = (Inl e, t) \<Longrightarrow> \<not> is_std e"
    and P: "wp m (\<lambda>r t. P t) s" "\<And>t u. P t \<Longrightarrow> sys_touched t u \<Longrightarrow> P u" "\<And>t x. P t \<Longrightarrow> P (t\<lparr>app_res := x\<rparr>)"
  shows "wp (catch (seq m (\<lambda>d. if isSuccess d
        then reply Status_ok json_type (json_dump L (dto_json L d))
        else reply Status_bad_request json_type (json_dump L (dto_json L d))))
     is_std (\<lambda>e. LOG L ERROR (what e) (at e)))
    (\<lambda>r t. P t \<and> (log_total L \<longrightarrow> (case r of Inl e \<Rightarrow> \<not> is_std e
        | Inr _ \<Rightarrow> \<exists>d t0. m s = (Inr d, t0) \<and> sys_touched (t0\<lparr>app_res := app_res t\<rparr>) t \<and>
            answers L d (app_res s) (app_res t)))) s"
proof (rule wp_endpoint [OF assms(1)], goal_cases)
  case 1
  obtain r t where m: "m s = (r, t)" by fastforce
  have res: "app_res t = app_res s" using preserves_result [OF keep _ m] by blast
  have Pt: "P t" by (rule wpD [OF P(1) m])
  show ?case
  proof (cases r)
    case (Inl e)
    with esc [of e t] m Pt show ?thesis by (auto simp: wp_def intro: P(2))
  next
    case (Inr d)
    have failed: "P u \<and> sys_touched (t\<lparr>app_res := app_res u\<rparr>) u \<and> answers L d (app_res s) (app_res u)"
      if "json_dump L (dto_json L d) = Inl e"
        "sys_touched (t\<lparr>app_res := (app_res t)\<lparr>res_status := dto_status d,
             res_fields := (res_fields (app_res t))(Content_type \<mapsto> json_type)\<rparr>\<rparr>) u" for e u
      using touched_res [OF that(2)] that res P(2) [OF P(3) [OF Pt] that(2)] by (simp add: answers_def)
    have dumped: "P (t\<lparr>app_res := replied (dto_status d) json_type b (app_res t)\<rparr>) \<and>
        answers L d (app_res s) (replied (dto_status d) json_type b (app_res t))"
      if "json_dump L (dto_json L d) = Inr b" for b
      using that res P(3) [OF Pt] by (simp add: answers_def)
    have ms: "m s = (Inr d, t)" using m Inr by simp
    show ?thesis
      unfolding wp_def ms prod.case sum.case
    proof (intro conjI allI impI, goal_cases)
      case (1 b) then show ?case using dumped by blast
    next
      case (2 b) then show ?case using dumped by auto
    next
      case (3 e r' u) then show ?case using failed by blast
    next
      case (4 e r' u)
      then have "r' = Inr ()" "sys_touched (t\<lparr>app_res := app_res u\<rparr>) u" "answers L d (app_res s) (app_res u)"
        using failed by blast+
      then show ?case by auto
    qed
  qed
qed

end
