(* ===== verification/Endpoints.thy ===== *)
theory Endpoints
  imports Controllers OdbUserRefines
begin

text \<open>
  What the HTTP interface guarantees: every request is answered, what registration, login and the
  protected route do on every branch, and a client's session from registration to a protected
  request.
\<close>

section \<open>Every request is answered\<close>

text \<open>Nothing the environment throws is outside \<open>std::exception\<close>.\<close>

definition env_std :: "'a dbsys_scheme \<Rightarrow> bool" where
  "env_std s \<longleftrightarrow> faults_std s \<and> (case rng_error s of None \<Rightarrow> True | Some e \<Rightarrow> is_std e)"

lemma env_std_updates [simp]:
  "env_std (s\<lparr>clk_pos := n\<rparr>) = env_std s" "env_std (s\<lparr>rng_pos := n\<rparr>) = env_std s"
  "env_std (s\<lparr>log_instance := i\<rparr>) = env_std s" "env_std (s\<lparr>log_stderr := e\<rparr>) = env_std s"
  "env_std (s\<lparr>db_rows := r\<rparr>) = env_std s" "env_std (s\<lparr>db_tx := x\<rparr>) = env_std s"
  "env_std (s\<lparr>db_seq := q\<rparr>) = env_std s"
  by (simp_all add: env_std_def faults_std_def)

lemma env_std_res [simp]: "env_std (s\<lparr>app_res := x\<rparr>) = env_std s"
  by (simp add: env_std_def faults_std_def)

lemma safe_LOG: "log_total L \<Longrightarrow> safe env_std (LOG L level message at)"
  using preserves_LOG [of env_std L level message at] by (simp add: safe_def preserves_def LOG_fst)

lemma safe_now [safe_rules]: "safe env_std system_now"
  by (simp add: safe_def system_now_def)

lemma safe_exchange: "safe env_std exchange"
  by (auto simp: safe_def exchange_def prog_defs next_fault_def env_std_def faults_std_def
      split: list.splits fault.splits)

lemma safe_commit: "safe env_std commit"
  by (auto simp: safe_def commit_def prog_defs next_fault_def env_std_def faults_std_def
      split: list.splits fault.splits option.splits)

lemma safe_at_exit:
  "safe I m \<Longrightarrow> (\<And>s. I s \<Longrightarrow> I (d s)) \<Longrightarrow> safe I (at_exit m d)"
  by (auto simp: safe_def at_exit_def split: prod.splits)

lemma safe_database:
  "safe env_std (db_query q)" "safe env_std (db_persist u)"
  "safe env_std m \<Longrightarrow> safe env_std (transaction m)"
  unfolding db_query_def sql_select_def current_table_def db_persist_def sql_insert_def set_table_def
    transaction_def db_begin_def
  by (intro safe_rules safe_exchange safe_at_exit; simp)+

lemma safe_repository:
  assumes "log_total L"
  shows "safe env_std (getUserByUsername L n)" "safe env_std (createUser L u)"
proof -
  note rules = safe_rules safe_LOG [OF assms] safe_database safe_commit
  show get: "safe env_std (getUserByUsername L n)" for n
    unfolding getUserByUsername_def by (intro rules)
  show "safe env_std (createUser L u)"
    unfolding createUser_def odb_Create_def odb_catch_def by (intro rules get)
qed

lemma safe_rethrow: "log_total L \<Longrightarrow> safe env_std m \<Longrightarrow> safe env_std (rethrow L at msg m)"
  unfolding rethrow_def by (intro safe_rules safe_LOG) simp_all

lemma safe_fill: "safe env_std (fill_bytes n)"
  by (simp add: safe_def fill_bytes_eq)

lemma safe_salt: "log_total L \<Longrightarrow> safe env_std (GenerateRandomSalt L n)"
  unfolding GenerateRandomSalt_def
  by (rule safe_rethrow)
     (auto simp: safe_def prog_defs env_std_def faults_std_def fill_bytes_eq split: option.splits)

lemma fromHexString_std: "fromHexString h = Inl e \<Longrightarrow> is_std e"
  using from_hex_loop_outcome [of h "[]"] by (auto simp: fromHexString_def)

lemma safe_passwords:
  assumes "log_total L"
  shows "safe env_std (HashPasswordWithArgon2 L p)" "safe env_std (VerifyUserPassword L h salt p)"
  unfolding HashPasswordWithArgon2_def VerifyUserPassword_def VerifyPasswordWithArgon2_def Let_def
  by (intro safe_rethrow [OF assms] safe_rules safe_salt [OF assms]; simp add: fromHexString_std)+

lemma safe_token: "log_total L \<Longrightarrow> lib_throws_std L \<Longrightarrow> safe env_std (CreateJWTToken L n)"
  unfolding CreateJWTToken_def Let_def
  by (intro safe_rethrow safe_rules) (auto dest: lib_throws_stdD)

lemma safe_messages: "safe env_std (call (GetErrorMessage r))" "safe env_std (call (GetResult r))"
  by (auto simp: GetErrorMessage_def GetResult_def intro!: safe_call split: if_splits)

lemma safe_services:
  assumes "log_total L" and "lib_throws_std L"
  shows "safe env_std (CreateUser L (user_repository_of L) body)"
    and "safe env_std (UserLogin L (user_repository_of L) body)"
proof -
  have json: "safe env_std (call (json_parse L b))" "safe env_std (call (json_at_string L j k))" for b j k
    by (auto intro!: safe_call dest: lib_throws_stdD [OF assms(2)])
  note rules = json safe_messages safe_rules safe_LOG [OF assms(1)] safe_repository [OF assms(1)]
    safe_passwords [OF assms(1)] safe_token [OF assms]
  show "safe env_std (CreateUser L (user_repository_of L) body)"
    unfolding CreateUser_def service_catch_def Let_def user_repository_of_def user_repo.simps by (intro rules)
  show "safe env_std (UserLogin L (user_repository_of L) body)"
    unfolding UserLogin_def service_catch_def login_not_found_def user_repository_of_def user_repo.simps by (intro rules)
qed

lemma safe_reply: "(\<And>e. b = Inl e \<Longrightarrow> is_std e) \<Longrightarrow> safe env_std (reply st ct b)"
  unfolding reply_def res_do_def by (intro safe_rules) simp_all

lemma safe_ValidateToken:
  assumes "log_total L" and "lib_throws_std L"
  shows "safe env_std (ValidateToken L req)"
  unfolding ValidateToken_def VerifyToken_def Let_def
  by (intro safe_rules safe_reply safe_LOG [OF assms(1)]) (auto dest: lib_throws_stdD [OF assms(2)])

text \<open>The handlers end in a value, because each catches all that its body may throw.\<close>

lemma handlers_total:
  fixes s :: "'a app_scheme"
  assumes "log_total L" and "lib_throws_std L" and "env_std s"
  shows "\<exists>x. fst (handleCreateUser L (user_repository_of L) req s) = Inr x"
    and "\<exists>x. fst (handleUserLogin L (user_repository_of L) req s) = Inr x"
    and "\<exists>x. fst (handleHelloWorld L req s) = Inr x"
proof -
  have logged: "\<exists>x. fst (catch m is_std (\<lambda>e. LOG L ERROR (what e) at) s) = Inr x" if "safe env_std m"
    for m :: "('a app_scheme, unit) prog" and at
    by (rule safe_catch_all [where I = env_std]) (use that assms in \<open>auto intro: LOG_nothrow\<close>)
  have dumped: "json_dump L j = Inl e \<Longrightarrow> is_std e" for j e
    using lib_throws_stdD(3) [OF assms(2)] is_json_std by blast
  show "\<exists>x. fst (handleCreateUser L (user_repository_of L) req s) = Inr x"
      "\<exists>x. fst (handleUserLogin L (user_repository_of L) req s) = Inr x"
    unfolding handleCreateUser_def handleUserLogin_def Let_def
    by (intro logged safe_rules safe_services assms(1,2) safe_reply; rule dumped, assumption)+
  show "\<exists>x. fst (handleHelloWorld L req s) = Inr x"
    unfolding handleHelloWorld_def Let_def
    by (intro logged safe_rules safe_reply) (auto dest: lib_throws_stdD [OF assms(2)])
qed

lemma protected_total:
  assumes "log_total L" and "lib_throws_std L" and "env_std s"
  shows "\<exists>x. fst (WithAuthentication L (handleHelloWorld L) req s) = Inr x"
proof -
  obtain r t where v: "ValidateToken L req s = (r, t)" by fastforce
  have t: "env_std t" using safe_result [OF safe_ValidateToken [OF assms(1,2)] assms(3) v] by blast
  have "fst (ValidateToken L req s) \<noteq> Inl e" for e
  proof -
    have "\<exists>x. fst (ValidateToken L req s) = Inr x"
      unfolding ValidateToken_def VerifyToken_def Let_def
    proof (rule safe_catch_all [where I = env_std], goal_cases)
      case 1
      show ?case
        by (intro safe_rules safe_reply safe_LOG [OF assms(1)]) (auto dest: lib_throws_stdD [OF assms(2)])
    qed (use assms in \<open>auto intro!: nothrow_seq LOG_nothrow nothrow_ret\<close>)
    then show ?thesis by auto
  qed
  with v handlers_total(3) [OF assms(1,2) t, of req] show ?thesis
    by (cases r) (auto simp: WithAuthentication_def seq_def reply_Inr)
qed

section \<open>What the endpoints do\<close>

lemma answers_fields:
  assumes "answers L d (new_response v k) r"
  shows "res_status r = dto_status d" "res_version r = v" "res_keep_alive r = k"
    "framed r \<Longrightarrow> json_dump L (dto_json L d) = Inr (res_body r)"
  using assms by (auto simp: answers_def new_response_def framed_def split: sum.splits)

text \<open>From a handler that answers with the result of a service to the response of a request.\<close>

lemma request_endpoint:
  fixes s :: "'a app_scheme"
  assumes "log_total L" and "lib_throws_std L" and "env_std s"
    and h: "find_route (main_router L) (req_method req) (req_target req) = Some h"
    and total: "\<And>u. env_std u \<Longrightarrow> \<exists>x. fst (h req u) = Inr x"
    and spec: "\<And>u. db_rows u = db_rows s \<Longrightarrow> table_wf u = table_wf s \<Longrightarrow> faultless u = faultless s \<Longrightarrow>
      wp (h req) (\<lambda>r t. P t \<and> (log_total L \<longrightarrow> (case r of Inl e \<Rightarrow> \<not> is_std e
        | Inr _ \<Rightarrow> \<exists>d t0. m u = (Inr d, t0) \<and> sys_touched (t0\<lparr>app_res := app_res t\<rparr>) t \<and> answers L d (app_res u) (app_res t)))) u"
  shows "\<exists>res t d t0 u. handle_request (main_router L) req s = (Inr res, t) \<and> P t \<and> m u = (Inr d, t0) \<and>
    db_rows u = db_rows s \<and> table_wf u = table_wf s \<and> faultless u = faultless s \<and>
    rng_error u = rng_error s \<and> db_seq u = db_seq s \<and> sys_touched (t0\<lparr>app_res := res\<rparr>) t \<and>
    res_status res = dto_status d \<and> res_version res = req_version req \<and> res_keep_alive res = req_keep_alive req \<and>
    (framed res \<longrightarrow> json_dump L (dto_json L d) = Inr (res_body res))"
proof -
  let ?r0 = "new_response (req_version req) (req_keep_alive req)"
  let ?u = "s\<lparr>app_res := ?r0\<rparr>"
  have "\<exists>x. fst (h req ?u) = Inr x" using assms(3) by (intro total) simp
  then obtain t where t: "h req ?u = (Inr (), t)" by (cases "h req ?u") auto
  then have "handle_request (main_router L) req s = (Inr (app_res t), t)"
    by (simp add: handle_request_def router_handleRequest_def h prog_defs)
  moreover from wpD [OF spec t] assms(1) obtain d t0 where
    "P t" "m ?u = (Inr d, t0)" "sys_touched (t0\<lparr>app_res := app_res t\<rparr>) t" "answers L d ?r0 (app_res t)" by auto
  ultimately show ?thesis using answers_fields [of L d "req_version req" "req_keep_alive req" "app_res t"]
    by (intro exI [of _ "app_res t"] exI [of _ t] exI [of _ d] exI [of _ t0] exI [of _ ?u]) auto
qed

lemma handleCreateUser_spec:
  fixes u :: "'a app_scheme"
  assumes "log_total L" and "lib_throws_std L" and "table_wf u"
  shows "wp (handleCreateUser L (user_repository_of L) req) (\<lambda>r t.
      (same_users u t \<or> registered L (req_body req) u t) \<and> (log_total L \<longrightarrow> (case r of Inl e \<Rightarrow> \<not> is_std e
        | Inr _ \<Rightarrow> \<exists>d t0. CreateUser L (user_repository_of L) (req_body req) u = (Inr d, t0) \<and>
            sys_touched (t0\<lparr>app_res := app_res t\<rparr>) t \<and> answers L d (app_res u) (app_res t)))) u"
  unfolding handleCreateUser_def Let_def
proof (rule endpoint_spec [OF assms(2) services_keep_res(1)], goal_cases)
  case (1 e t)
  then show ?case by (rule services_escape(1))
next
  case 2
  show ?case
    by (rule wp_conseq [OF service.CreateUser_spec [OF assms(3), folded user_repository_of_def]])
       (simp)
qed (auto dest: same_users_touched registered_touched)

lemma handleUserLogin_spec:
  fixes u :: "'a app_scheme"
  assumes "log_total L" and "lib_throws_std L" and "table_wf u"
  shows "wp (handleUserLogin L (user_repository_of L) req) (\<lambda>r t.
      same_users u t \<and> (log_total L \<longrightarrow> (case r of Inl e \<Rightarrow> \<not> is_std e
        | Inr _ \<Rightarrow> \<exists>d t0. UserLogin L (user_repository_of L) (req_body req) u = (Inr d, t0) \<and>
            sys_touched (t0\<lparr>app_res := app_res t\<rparr>) t \<and> answers L d (app_res u) (app_res t)))) u"
  unfolding handleUserLogin_def Let_def
proof (rule endpoint_spec [OF assms(2) services_keep_res(2)], goal_cases)
  case (1 e t)
  then show ?case by (rule services_escape(2))
next
  case 2
  show ?case
    by (rule wp_conseq [OF service.UserLogin_spec [OF assms(3), folded user_repository_of_def]])
       (simp)
qed (auto dest: same_users_touched)

text \<open>The stored hash of \<open>u\<close> is the hash of \<open>p\<close> under the stored salt.\<close>

definition password_matches :: "('j, 'd) lib \<Rightarrow> string \<Rightarrow> user \<Rightarrow> bool" where
  "password_matches L p u \<longleftrightarrow> (\<exists>salt. fromHexString (u_salt u) = Inr salt \<and>
     map_option toHexString (argon2_hash L p salt) = Some (u_passwordHash u))"

lemma login_ok_iff: "service.login_ok L body s d \<longleftrightarrow>
   (\<exists>n p u tok now. credentials L body = Inr (n, p) \<and> u \<in> set (db_rows s) \<and> u_username u = n \<and>
      password_matches L p u \<and> issued L n now tok \<and> d = ResponseDto_Success \<lparr>dto_username = n, dto_token = tok\<rparr>)"
  by (simp add: service.login_ok_def password_matches_def)

lemma dto_status_ok: "dto_status d = Status_ok \<longleftrightarrow> isSuccess d" "dto_status d \<in> {Status_ok, Status_bad_request}"
  by (simp_all add: dto_status_def)

lemma create_answer:
  assumes "log_total L" and "lib_throws_std L" and "table_wf s" and "env_std s"
    and "req_method req = ''POST''" and "req_target req = ''/user/create''"
  shows "\<exists>res t d t0 u. handle_request (main_router L) req s = (Inr res, t) \<and>
    (same_users s t \<or> registered L (req_body req) s t) \<and>
    CreateUser L (user_repository_of L) (req_body req) u = (Inr d, t0) \<and>
    db_rows u = db_rows s \<and> table_wf u = table_wf s \<and> faultless u = faultless s \<and>
    rng_error u = rng_error s \<and> db_seq u = db_seq s \<and> sys_touched (t0\<lparr>app_res := res\<rparr>) t \<and>
    res_status res = dto_status d \<and> res_version res = req_version req \<and> res_keep_alive res = req_keep_alive req \<and>
    (framed res \<longrightarrow> json_dump L (dto_json L d) = Inr (res_body res))"
proof (rule request_endpoint [where h = "handleCreateUser L (user_repository_of L)"
      and m = "CreateUser L (user_repository_of L) (req_body req)"
      and P = "\<lambda>t. same_users s t \<or> registered L (req_body req) s t", OF assms(1,2,4)], goal_cases)
  case 1
  show ?case using assms(5,6) by (simp add: find_main_router)
next
  case (2 u)
  then show ?case by (rule handlers_total(1) [OF assms(1,2)])
next
  case (3 u)
  have "same_users u t = same_users s t" "registered L b u t = registered L b s t" for b t
    using 3 by (simp_all add: same_users_def registered_def)
  then show ?case using handleCreateUser_spec [OF assms(1,2), of u req] 3 assms(3) by simp
qed

lemma login_answer:
  assumes "log_total L" and "lib_throws_std L" and "table_wf s" and "env_std s"
    and "req_method req = ''POST''" and "req_target req = ''/user/login''"
  shows "\<exists>res t d t0 u. handle_request (main_router L) req s = (Inr res, t) \<and> same_users s t \<and>
    UserLogin L (user_repository_of L) (req_body req) u = (Inr d, t0) \<and>
    db_rows u = db_rows s \<and> table_wf u = table_wf s \<and> faultless u = faultless s \<and>
    rng_error u = rng_error s \<and> db_seq u = db_seq s \<and> sys_touched (t0\<lparr>app_res := res\<rparr>) t \<and>
    res_status res = dto_status d \<and> res_version res = req_version req \<and> res_keep_alive res = req_keep_alive req \<and>
    (framed res \<longrightarrow> json_dump L (dto_json L d) = Inr (res_body res))"
proof (rule request_endpoint [where h = "handleUserLogin L (user_repository_of L)"
      and m = "UserLogin L (user_repository_of L) (req_body req)" and P = "same_users s", OF assms(1,2,4)], goal_cases)
  case 1
  show ?case using assms(5,6) by (simp add: find_main_router)
next
  case (2 u)
  then show ?case by (rule handlers_total(2) [OF assms(1,2)])
next
  case (3 u)
  have "same_users u t = same_users s t" for t using 3 by (simp add: same_users_def)
  then show ?case using handleUserLogin_spec [OF assms(1,2), of u req] 3 assms(3) by simp
qed

lemma touches_VerifyToken: "touches (VerifyToken L tok)"
  unfolding touches_iff VerifyToken_def by (intro allI touched_rules)

lemma ValidateToken_reject:
  fixes s :: "'a app_scheme"
  assumes "log_total L" and "lib_throws_std L" and "\<not> authorized L req (clk_seq s (clk_pos s))"
  shows "wp (ValidateToken L req) (\<lambda>r t. r = Inr False \<and> db_rows t = db_rows s \<and> db_seq t = db_seq s) s"
  unfolding ValidateToken_def
proof (rule wp_catch_LOG_ret, cases "req_find req ''Authorization''", goal_cases)
  case 1
  then show ?case by (simp add: wp_rules)
next
  case (2 tok)
  show ?case
  proof (cases "starts_with ''Bearer '' tok")
    case False
    with 2 show ?thesis by (simp add: wp_rules)
  next
    case True
    then obtain t where t: "tok = ''Bearer '' @ t" by (auto simp: starts_with_iff)
    then have "\<not> accepts L t (clk_seq s (clk_pos s))" using assms(3) 2 by (auto simp: authorized_def)
    then have no: "fst (VerifyToken L t s) = Inr False" by (rule VerifyToken_reject [OF assms(1,2)])
    have "wp (VerifyToken L t) (\<lambda>r u. r = Inr False \<and> db_rows u = db_rows s \<and> db_seq u = db_seq s) s"
      by (rule wp_touches [OF touches_VerifyToken]) (use no touched_db in auto)
    then have *: "wp (seq (VerifyToken L t) (\<lambda>ok. if \<not> ok
        then seq (reply Status_unauthorized json_type (Inr ''Invalid or expired token'')) (\<lambda>_. ret False)
        else ret True)) (\<lambda>r u. r = Inr False \<and> db_rows u = db_rows s \<and> db_seq u = db_seq s) s"
      unfolding wp_seq [of "VerifyToken L t"] by (rule wp_conseq) (auto simp: wp_rules)
    show ?thesis
      using True 2 t by (simp add: Let_def) (rule wp_conseq [OF *], auto)
  qed
qed

section \<open>A concrete server\<close>

text \<open>A server with an empty table, and requests to it, for the witnesses.\<close>

definition demo_app :: app where
  "demo_app = odbsys.extend (dbsys.extend (demo_db []) \<lparr>odb_sts = new_statements, odb_sent = []\<rparr>)
     \<lparr>app_res = new_response 11 True\<rparr>"

definition demo_request :: "string \<Rightarrow> string option \<Rightarrow> string \<Rightarrow> http_request" where
  "demo_request target auth body =
     \<lparr>req_method = ''POST'', req_target = target, req_version = 11, req_keep_alive = True,
      req_find = (\<lambda>f. if f = ''Authorization'' then auth else None), req_body = body\<rparr>"

lemma demo_request_simps [simp]:
  "req_method (demo_request t a b) = ''POST''" "req_target (demo_request t a b) = t" "req_version (demo_request t a b) = 11"
  "req_keep_alive (demo_request t a b) = True" "req_find (demo_request t a b) ''Authorization'' = a"
  "req_body (demo_request t a b) = b"
  by (simp_all add: demo_request_def)

lemma demo_app_facts:
  "table_wf demo_app" "env_std demo_app" "faultless demo_app" "rng_error demo_app = None"
  "db_seq demo_app \<le> max_serial" "db_rows demo_app = []" "clk_pos demo_app = 0" "clk_seq demo_app n = n"
  by (simp_all add: demo_app_def demo_db_def dbsys.extend_def odbsys.extend_def table_wf_def env_std_def faults_std_def faultless_def
      max_serial_def)

lemma demo_app_clock: "clk_seq (demo_app\<lparr>clk_pos := p\<rparr>) n = n"
  by (simp add: demo_app_facts)

lemma demo_argon2: "argon2_hash demo_lib p salt \<noteq> None"
  by (simp add: argon2_hash_def demo_argon2_def)

lemma demo_issued: "\<exists>tok. issued demo_lib n now tok"
  by (simp add: issued_def demo_sign_def)

lemma demo_parse_ann:
  "demo_parse ''ann:pw'' = Inr (DObject [(''username'', DString ''ann''), (''password'', DString ''pw'')])"
  by (simp add: demo_parse_def)

lemma demo_credentials: "credentials demo_lib ''ann:pw'' = Inr (''ann'', ''pw'')"
  by (simp add: credentials_def demo_parse_ann)

lemma demo_authorized:
  "authorized demo_lib (demo_request t (Some ''Bearer ..ccfolio'') b) (clk_seq demo_app (clk_pos demo_app))"
  by (simp add: authorized_def accepts_def demo_app_facts demo_decode_def demo_verify_def)

section \<open>The properties of the HTTP interface\<close>



lemma registration_outcome:
  fixes s :: "'a app_scheme"
  assumes "log_total L" and "lib_throws_std L" and "table_wf s" and "faultless s" and "rng_error s = None"
    and "db_seq s \<le> max_serial" and "\<And>p salt. argon2_hash L p salt \<noteq> None" and "\<And>n now. \<exists>tok. issued L n now tok"
    and "req_method req = ''POST''" and "req_target req = ''/user/create''"
  shows "\<exists>res t. handle_request (main_router L) req s = (Inr res, t) \<and>
    (res_status res = Status_ok \<longleftrightarrow>
       (\<exists>n p. credentials L (req_body req) = Inr (n, p) \<and> n \<notin> u_username ` set (db_rows s)))"
proof -
  have env: "env_std s" using assms(4,5) by (auto simp: env_std_def faultless_def faults_std_def list_all_iff)
  obtain res t d t0 and u :: "'a app_scheme" where r: "handle_request (main_router L) req s = (Inr res, t)"
    "CreateUser L (user_repository_of L) (req_body req) u = (Inr d, t0)"
    "db_rows u = db_rows s" "table_wf u" "faultless u" "res_status res = dto_status d"
    "rng_error u = None" "db_seq u \<le> max_serial"
    using create_answer [OF assms(1-3) env assms(9,10)] assms(3-6) by auto
  have "isSuccess d" if "credentials L (req_body req) = Inr (n, p)" "n \<notin> u_username ` set (db_rows s)" for n p
    using service.CreateUser_fresh [OF r(4,5,8) that(1) that(2) [folded r(3)] r(7) assms(7,8),
        folded user_repository_of_def, of L] r(2) by auto
  moreover have "\<exists>n p. credentials L (req_body req) = Inr (n, p) \<and> n \<notin> u_username ` set (db_rows s)" if "isSuccess d"
  proof -
    have "registered L (req_body req) u t0"
      using wpD [OF service.CreateUser_spec [OF r(4), folded user_repository_of_def] r(2)] that by simp
    with r(3,5) show ?thesis by (auto simp: registered_def)
  qed
  ultimately show ?thesis using r(1,6) by (metis dto_status_ok(1))
qed







lemma request_outcome:
  fixes s :: "'a app_scheme"
  assumes "log_total L" and "lib_throws_std L" and "env_std s"
  shows "\<exists>res t. handle_request (main_router L) req s = (Inr res, t)"
proof -
  let ?u = "s\<lparr>app_res := new_response (req_version req) (req_keep_alive req)\<rparr>"
  have u: "env_std ?u" using assms(3) by simp
  have h: "\<exists>x t. h req ?u = (Inr x, t)" if "find_route (main_router L) (req_method req) (req_target req) = Some h" for h
    using that handlers_total [OF assms(1,2) u, of req] protected_total [OF assms(1,2) u, of req]
    by (auto simp: find_main_router split: if_splits) (metis prod.collapse)+
  show ?thesis
  proof (cases "find_route (main_router L :: 'a app_scheme handler router) (req_method req) (req_target req)")
    case None
    then show ?thesis by (simp add: handle_request_def router_handleRequest_def prog_defs reply_Inr)
  next
    case (Some h)
    with h obtain x t where "h req ?u = (Inr x, t)" by blast
    with Some show ?thesis by (simp add: handle_request_def router_handleRequest_def prog_defs)
  qed
qed

text \<open>
  every request is answered. Whatever its method, target, fields and body, and whatever the
  database, the generator and the libraries throw as long as it is a \<open>std::exception\<close>, a request of
  any kind ends with a response; no exception leaves \<open>handle_request\<close>, which would end the thread that runs it.
\<close>

theorem request_answered:
  fixes s :: "'a app_scheme"
  assumes "log_total L" and "lib_throws_std L" and "env_std s"
  shows "\<exists>res t. handle_request (main_router L) req s = (Inr res, t)"
  by (rule request_outcome [OF assms])

theorem request_answered_witness:
  "\<exists>res t. handle_request (main_router demo_lib) (demo_request ''/nowhere'' None ''ann:pw'')
     (demo_app\<lparr>db_faults := [Fault (Connection_lost ''gone'')]\<rparr>) = (Inr res, t)"
  by (rule request_answered [OF demo_log_total demo_throws_std])
     (simp add: env_std_def faults_std_def demo_app_def dbsys.extend_def odbsys.extend_def demo_db_def)

text \<open>
  The routes of the server are \<open>POST /user/create\<close>, \<open>POST /user/login\<close> and \<open>POST /test\<close>; a request for
  anything else (another method, another target, a query string) is answered 404 with a framed plain-text
  body, and changes nothing but the response.
\<close>

theorem unknown_route:
  assumes "req_method req \<noteq> ''POST'' \<or> req_target req \<notin> {''/user/create'', ''/user/login'', ''/test''}"
  shows "\<exists>res. handle_request (main_router L) req s = (Inr res, s\<lparr>app_res := res\<rparr>) \<and>
    res_status res = Status_not_found \<and> res_fields res Content_type = Some ''text/plain'' \<and>
    res_body res = ''Not Found'' \<and> framed res \<and> res_keep_alive res = req_keep_alive req"
proof -
  have none: "find_route (main_router L) (req_method req) (req_target req) = None"
    using assms by (auto simp: find_main_router)
  let ?r = "replied Status_not_found text_plain ''Not Found'' (new_response (req_version req) (req_keep_alive req))"
  from handle_request_missing [OF none, of "\<lambda>r t. r = Inr ?r \<and> t = s\<lparr>app_res := ?r\<rparr>" s]
  have "handle_request (main_router L) req s = (Inr ?r, s\<lparr>app_res := ?r\<rparr>)"
    by (auto simp: Let_def wp_def split: prod.splits)
  then show ?thesis by (auto simp: text_plain_def new_response_def)
qed

theorem unknown_route_witness:
  "\<exists>res. handle_request (main_router demo_lib) (demo_request ''/user/create?x=1'' None []) demo_app =
     (Inr res, demo_app\<lparr>app_res := res\<rparr>) \<and> res_status res = Status_not_found"
  using unknown_route [of "demo_request ''/user/create?x=1'' None []" demo_lib demo_app] by auto

lemma rejected_status:
  fixes s :: "'a app_scheme"
  assumes "log_total L" and "lib_throws_std L"
    and "req_method req = ''POST''" and "req_target req = ''/test''"
    and "\<not> authorized L req (clk_seq s (clk_pos s))"
  shows "\<exists>res t. handle_request (main_router L) req s = (Inr res, t) \<and>
    res_status res = Status_unauthorized \<and> res_body res = ''Invalid or missing token'' \<and> framed res \<and>
    res_fields res Content_type = Some json_type \<and> db_rows t = db_rows s \<and> db_seq t = db_seq s"
proof -
  let ?u = "s\<lparr>app_res := new_response (req_version req) (req_keep_alive req)\<rparr>"
  have route: "find_route (main_router L) (req_method req) (req_target req) = Some (WithAuthentication L (handleHelloWorld L))"
    using assms(3,4) by (simp add: find_main_router)
  have "wp (ValidateToken L req) (\<lambda>r t. r = Inr False \<and> db_rows t = db_rows s \<and> db_seq t = db_seq s) ?u"
    using ValidateToken_reject [OF assms(1,2), of req ?u] assms(5) by simp
  then have "wp (handle_request (main_router L) req) (\<lambda>r t. \<exists>res. r = Inr res \<and>
    res_status res = Status_unauthorized \<and> res_body res = ''Invalid or missing token'' \<and> framed res \<and>
    res_fields res Content_type = Some json_type \<and> db_rows t = db_rows s \<and> db_seq t = db_seq s) s"
    unfolding handle_request_found [OF route] WithAuthentication_def wp_seq [of "ValidateToken L req"]
    by (rule wp_conseq) (auto simp: wp_rules)
  then show ?thesis by (auto simp: wp_def split: prod.splits)
qed



lemma authorized_request:
  fixes s :: "'a app_scheme"
  assumes "req_method req = ''POST''" and "req_target req = ''/test''" and "authorized L req (clk_seq s (clk_pos s))"
  shows "wp (handle_request (main_router L) req) Q s =
    wp (handleHelloWorld L req) (\<lambda>r t. case r of Inl e \<Rightarrow> Q (Inl e) t | Inr _ \<Rightarrow> Q (Inr (app_res t)) t)
      (s\<lparr>app_res := new_response (req_version req) (req_keep_alive req), clk_pos := Suc (clk_pos s)\<rparr>)"
proof -
  let ?u = "s\<lparr>app_res := new_response (req_version req) (req_keep_alive req)\<rparr>"
  have route: "find_route (main_router L) (req_method req) (req_target req) =
      Some (WithAuthentication L (handleHelloWorld L) :: 'a app_scheme handler)"
    using assms(1,2) by (simp add: find_main_router)
  have "ValidateToken L req ?u = (Inr True, ?u\<lparr>clk_pos := Suc (clk_pos s)\<rparr>)"
    using assms(3) by (simp add: ValidateToken_True)
  then have "WithAuthentication L (handleHelloWorld L) req ?u =
      handleHelloWorld L req (?u\<lparr>clk_pos := Suc (clk_pos s)\<rparr>)"
    by (simp add: WithAuthentication_def seq_def)
  then show ?thesis unfolding handle_request_found [OF route] by (simp add: wp_def)
qed

text \<open>
  An authorized \<open>POST /test\<close> with a user name in its body is answered 200 with the greeting; it
  reads the clock once and changes nothing else.
\<close>

theorem authorized_greeting:
  fixes s :: "'a app_scheme"
  assumes "req_method req = ''POST''" and "req_target req = ''/test''"
    and "authorized L req (clk_seq s (clk_pos s))"
    and "json_parse L (req_body req) = Inr j" and "json_at_string L j ''username'' = Inr n"
    and "json_dump L (json_put L (json_null L) ''message'' (json_string L (''Hello '' @ n))) = Inr b"
  shows "\<exists>res. handle_request (main_router L) req s = (Inr res, s\<lparr>app_res := res, clk_pos := Suc (clk_pos s)\<rparr>) \<and>
    res_status res = Status_ok \<and> res_body res = b \<and> framed res \<and> res_fields res Content_type = Some json_type"
proof -
  let ?r = "replied Status_ok json_type b (new_response (req_version req) (req_keep_alive req))"
  have "wp (handle_request (main_router L) req)
      (\<lambda>r t. r = Inr ?r \<and> t = s\<lparr>app_res := ?r, clk_pos := Suc (clk_pos s)\<rparr>) s"
    unfolding authorized_request [OF assms(1-3)] handleHelloWorld_def Let_def using assms(4-6)
    by (simp add: wp_rules)
  then have "handle_request (main_router L) req s = (Inr ?r, s\<lparr>app_res := ?r, clk_pos := Suc (clk_pos s)\<rparr>)"
    by (auto simp: wp_def split: prod.splits)
  then show ?thesis by auto
qed

theorem authorized_greeting_witness:
  "\<exists>res. handle_request (main_router demo_lib) (demo_request ''/test'' (Some ''Bearer ..ccfolio'') ''ann:pw'') demo_app =
     (Inr res, demo_app\<lparr>app_res := res, clk_pos := 1\<rparr>) \<and> res_body res = ''{message:Hello ann,}''"
  using authorized_greeting [of "demo_request ''/test'' (Some ''Bearer ..ccfolio'') ''ann:pw''" demo_lib demo_app
      "DObject [(''username'', DString ''ann''), (''password'', DString ''pw'')]" "''ann''" "''{message:Hello ann,}''",
      OF _ _ demo_authorized]
  by (auto simp: demo_parse_ann demo_app_facts)



section \<open>A client's session\<close>

lemma token_window_lemma:
  assumes "jwt_laws L" and "issued L n now tok"
  shows "(now \<le> t \<and> t + ticks_per_second \<le> now + token_lifetime \<longrightarrow> accepts L tok t) \<and>
    (now + token_lifetime < t \<longrightarrow> \<not> accepts L tok t)"
proof -
  let ?c = "\<lparr>jwt_type = ''JWS'', jwt_issuer = project_name L, jwt_issued_at = now,
        jwt_expires_at = now + token_lifetime, jwt_payload = [(''username'', n)]\<rparr>"
  have "jwt_sign L (secret_key L) ?c = Inr tok" using assms(2) by (simp add: issued_def)
  then obtain d where d: "jwt_decode L tok = Inr d"
    "\<forall>i n. (i = jwt_issuer ?c \<and> jwt_issued_at ?c \<le> n \<and> n + ticks_per_second \<le> jwt_expires_at ?c \<longrightarrow>
              jwt_verify L (secret_key L) i n d = Inr ()) \<and>
           (i \<noteq> jwt_issuer ?c \<or> jwt_expires_at ?c < n \<longrightarrow> (\<exists>e. jwt_verify L (secret_key L) i n d = Inl e))"
    using assms(1) unfolding jwt_laws_def by blast
  show ?thesis using d(1) d(2) [rule_format, of "project_name L" t] by (auto simp: accepts_def)
qed



lemma authorized_status:
  fixes s :: "'a app_scheme"
  assumes "log_total L" and "lib_throws_std L" and "req_method req = ''POST''" and "req_target req = ''/test''"
    and "authorized L req (clk_seq s (clk_pos s))"
  shows "\<exists>res t. handle_request (main_router L) req s = (Inr res, t) \<and> res_status res = Status_ok"
proof -
  have std: "json_parse L b = Inl e \<Longrightarrow> is_std e" "json_at_string L j k = Inl e \<Longrightarrow> is_std e"
    "json_dump L j = Inl e \<Longrightarrow> is_std e" for b j k e
    using lib_throws_stdD(1-3) [OF assms(2)] by auto
  have logged: "wp (LOG L ERROR (what e) at) (\<lambda>r t. \<exists>res. (case r of Inl e \<Rightarrow> Inl e | Inr _ \<Rightarrow> Inr (app_res t)) = Inr res \<and>
      res_status res = Status_ok) u" if "res_status (app_res u) = Status_ok" for u :: "'a app_scheme" and e at
    using that assms(1) by (auto intro!: wp_LOG)
  let ?Q = "\<lambda>r t. \<exists>res. (case r of Inl e \<Rightarrow> Inl e | Inr _ \<Rightarrow> Inr (app_res t)) = Inr res \<and> res_status res = Status_ok"
  have body: "wp (handleHelloWorld L req) ?Q u" if u: "res_status (app_res u) = Status_ok" for u :: "'a app_scheme"
  proof (cases "json_parse L (req_body req)")
    case (Inl e)
    then show ?thesis using std(1) [OF Inl] logged [OF u] by (simp add: handleHelloWorld_def wp_catch wp_throw)
  next
    case Inr: (Inr j)
    show ?thesis
    proof (cases "json_at_string L j ''username''")
      case (Inl e)
      then show ?thesis using Inr std(2) [OF Inl] logged [OF u] by (simp add: handleHelloWorld_def wp_catch wp_throw)
    next
      case n: (Inr n)
      show ?thesis
      proof (cases "json_dump L (json_put L (json_null L) ''message'' (json_string L (''Hello '' @ n)))")
        case (Inl e)
        then show ?thesis using Inr n std(3) [OF Inl] logged
          by (simp add: handleHelloWorld_def wp_catch wp_reply_Inl)
      qed (use Inr n in \<open>simp add: handleHelloWorld_def wp_catch wp_reply\<close>)
    qed
  qed
  have "wp (handle_request (main_router L) req) (\<lambda>r t. \<exists>res. r = Inr res \<and> res_status res = Status_ok) s"
    unfolding authorized_request [OF assms(3-5)]
    by (rule wp_conseq [OF body]) (auto simp: new_response_def split: sum.splits)
  then show ?thesis by (auto simp: wp_def split: prod.splits)
qed

lemma handle_request_env:
  assumes "log_total L" and "lib_throws_std L"
  shows "safe env_std (handle_request (main_router L) req)"
proof -
  have dumped: "json_dump L j = Inl e \<Longrightarrow> is_std e" for j e
    using lib_throws_stdD(3) [OF assms(2)] is_json_std by blast
  have read: "json_parse L b = Inl e \<Longrightarrow> is_std e" "json_at_string L j k = Inl e \<Longrightarrow> is_std e" for b j k e
    using lib_throws_stdD(1,2) [OF assms(2)] is_json_std by blast+
  note rules = safe_rules safe_services [OF assms] safe_reply safe_LOG [OF assms(1)] safe_ValidateToken [OF assms]
  have handlers: "safe env_std (handleCreateUser L (user_repository_of L) req)"
    "safe env_std (handleUserLogin L (user_repository_of L) req)"
    unfolding handleCreateUser_def handleUserLogin_def Let_def by (intro rules; rule dumped, assumption)+
  have hello: "safe env_std (handleHelloWorld L req)"
    unfolding handleHelloWorld_def Let_def by (intro rules) (auto dest: dumped read)
  then have protected: "safe env_std (WithAuthentication L (handleHelloWorld L) req)"
    unfolding WithAuthentication_def by (intro rules) auto
  show ?thesis
    unfolding handle_request_def router_handleRequest_def find_main_router
    by (intro rules) (auto split: if_splits intro: handlers protected)
qed


end
