(* ===== verification/HttpSession.thy ===== *)
theory HttpSession
  imports Endpoints
begin

text \<open>
  \<^verbatim>\<open>src/Network/HttpSession.{h,cc}\<close>: one connection as the completion handlers of its asynchronous
  operations. Starting an operation is recorded in the state; the event that completes it is a step
  the environment takes, with the error code and the request it likes. A session is alive as long as
  an operation that holds a pointer to it is outstanding.
\<close>

section \<open>Error codes\<close>

text \<open>
  The codes the network code tells apart; \<open>Other_ec\<close> is any other error, with its message. \<open>Ok\<close> is the
  code that converts to \<open>false\<close>.
\<close>

datatype error_code = Ok | End_of_stream | Operation_aborted | Ws_closed | Other_ec string

text \<open>\<open>ec.message()\<close> is the library's; \<open>msg\<close> is this function.\<close>

definition hs_site :: "int \<Rightarrow> string \<Rightarrow> site" where
  "hs_site line fn = (''src/Network/HttpSession.cc'', line, fn)"

section \<open>State\<close>

text \<open>
  \<open>hs_op\<close> is the outstanding operation: an \<open>async_read\<close> into the parser or an \<open>async_write\<close> of a
  response. \<open>hs_body_limit\<close> and \<open>hs_expires\<close> are the limit of the parser and the seconds of the last
  \<open>expires_after\<close>. \<open>hs_handed\<close> are the requests with which a WebSocket session has been started on the
  released socket. \<open>hs_reads\<close> and \<open>hs_writes\<close> are history: the requests passed to the router and the
  responses passed to \<open>async_write\<close>.
\<close>

datatype http_op = Reading | Writing http_response

datatype http_socket = Connected | Shutdown_send | Released

record session = app +
  hs_op :: "http_op option"
  hs_body_limit :: "nat option"
  hs_expires :: "nat option"
  hs_socket :: http_socket
  hs_handed :: "http_request list"
  hs_reads :: "http_request list"
  hs_writes :: "http_response list"

section \<open>The member functions\<close>

definition hs_fail ::
  "('j, 'd) lib \<Rightarrow> (error_code \<Rightarrow> string) \<Rightarrow> error_code \<Rightarrow> string \<Rightarrow> ('a sys_scheme, unit) prog" where
  "hs_fail L msg ec op =
     (if ec = Operation_aborted then ret ()
      else LOG L ERROR (op @ '': '' @ msg ec) (hs_site 65 ''fail''))"

definition do_read :: "('a session_scheme, unit) prog" where
  "do_read = modify (\<lambda>s. s\<lparr>hs_body_limit := Some 10000, hs_expires := Some 100, hs_op := Some Reading\<rparr>)"

definition hs_run :: "('a session_scheme, unit) prog" where
  "hs_run = do_read"

definition shutdown_send :: "('a session_scheme, unit) prog" where
  "shutdown_send = modify (\<lambda>s. s\<lparr>hs_socket := Shutdown_send\<rparr>)"

text \<open>
  What \<open>handle_request\<close> is given to send the response with: it is moved to the heap and its write
  started. \<open>send_lambda\<close>, declared above in the file for the same purpose, does the same and is not used.
\<close>

definition hs_send :: "http_response \<Rightarrow> ('a session_scheme, unit) prog" where
  "hs_send response = modify (\<lambda>s. s\<lparr>hs_op := Some (Writing response), hs_writes := hs_writes s @ [response]\<rparr>)"

definition send_lambda :: "http_response \<Rightarrow> ('a session_scheme, unit) prog" where
  "send_lambda msg = modify (\<lambda>self. self\<lparr>hs_op := Some (Writing msg), hs_writes := hs_writes self @ [msg]\<rparr>)"

text \<open>\<open>is_upgrade\<close> is \<open>websocket::is_upgrade\<close>.\<close>

definition hs_on_read ::
  "('j, 'd) lib \<Rightarrow> (error_code \<Rightarrow> string) \<Rightarrow> (http_request \<Rightarrow> bool) \<Rightarrow> 'a session_scheme handler router
     \<Rightarrow> error_code \<Rightarrow> http_request \<Rightarrow> ('a session_scheme, unit) prog" where
  "hs_on_read L msg is_upgrade router ec req =
     (if ec = End_of_stream then shutdown_send
      else if ec \<noteq> Ok then hs_fail L msg ec ''read''
      else if is_upgrade req
      then modify (\<lambda>s. s\<lparr>hs_socket := Released, hs_handed := hs_handed s @ [req]\<rparr>)
      else seq (modify (\<lambda>s. s\<lparr>hs_reads := hs_reads s @ [req]\<rparr>)) (\<lambda>_.
           seq (handle_request router req) hs_send))"

definition hs_on_write ::
  "('j, 'd) lib \<Rightarrow> (error_code \<Rightarrow> string) \<Rightarrow> error_code \<Rightarrow> bool \<Rightarrow> ('a session_scheme, unit) prog" where
  "hs_on_write L msg ec close =
     (if ec \<noteq> Ok then hs_fail L msg ec ''write''
      else if close then shutdown_send
      else do_read)"

section \<open>Events\<close>

text \<open>
  The completion of the outstanding operation. The operation is over when its handler runs, and the
  handler may start another. \<open>need_eof\<close> is the function of Beast that says whether the end of a
  response is the end of the connection.
\<close>

datatype http_event = Read_done error_code http_request | Write_done error_code

definition op_done :: "('a session_scheme, unit) prog" where
  "op_done = modify (\<lambda>s. s\<lparr>hs_op := None\<rparr>)"

definition session_step ::
  "('j, 'd) lib \<Rightarrow> (error_code \<Rightarrow> string) \<Rightarrow> (http_request \<Rightarrow> bool) \<Rightarrow> (http_response \<Rightarrow> bool)
     \<Rightarrow> 'a session_scheme handler router \<Rightarrow> http_event \<Rightarrow> ('a session_scheme, unit) prog" where
  "session_step L msg is_upgrade need_eof router ev =
     seq (get hs_op) (\<lambda>op.
     case (op, ev) of
       (Some Reading, Read_done ec req) \<Rightarrow> seq op_done (\<lambda>_. hs_on_read L msg is_upgrade router ec req)
     | (Some (Writing response), Write_done ec) \<Rightarrow> seq op_done (\<lambda>_. hs_on_write L msg ec (need_eof response))
     | _ \<Rightarrow> ret ())"

fun session_run ::
  "('j, 'd) lib \<Rightarrow> (error_code \<Rightarrow> string) \<Rightarrow> (http_request \<Rightarrow> bool) \<Rightarrow> (http_response \<Rightarrow> bool)
     \<Rightarrow> 'a session_scheme handler router \<Rightarrow> http_event list \<Rightarrow> ('a session_scheme, unit) prog" where
  "session_run L msg is_upgrade need_eof router [] = ret ()"
| "session_run L msg is_upgrade need_eof router (ev # evs) =
     seq (session_step L msg is_upgrade need_eof router ev) (\<lambda>_. session_run L msg is_upgrade need_eof router evs)"

section \<open>Invariant\<close>

text \<open>
  What a connection keeps: while an operation is outstanding the socket is connected, the last read
  was started with the limits, and every request so far has its response; a response being written
  is the last one.
\<close>

definition session_inv :: "'a session_scheme \<Rightarrow> bool" where
  "session_inv s \<longleftrightarrow>
     (hs_op s \<noteq> None \<longrightarrow> hs_socket s = Connected \<and> hs_body_limit s = Some 10000 \<and> hs_expires s = Some 100 \<and>
        hs_handed s = []) \<and>
     (\<forall>r. hs_op s = Some (Writing r) \<longrightarrow> hs_writes s \<noteq> [] \<and> last (hs_writes s) = r) \<and>
     (hs_op s \<noteq> None \<longrightarrow> length (hs_writes s) = length (hs_reads s)) \<and>
     length (hs_writes s) \<le> length (hs_reads s) \<and> length (hs_reads s) \<le> Suc (length (hs_writes s))"

definition new_session :: "'a session_scheme \<Rightarrow> bool" where
  "new_session s \<longleftrightarrow> hs_op s = None \<and> hs_socket s = Connected \<and> hs_handed s = [] \<and> hs_reads s = [] \<and> hs_writes s = []"

lemma session_updates [simp]:
  "env_std (s\<lparr>hs_op := x\<rparr>) = env_std s" "env_std (s\<lparr>hs_reads := y\<rparr>) = env_std s"
  "env_std (s\<lparr>hs_writes := z\<rparr>) = env_std s" "env_std (s\<lparr>hs_socket := w\<rparr>) = env_std s"
  "env_std (s\<lparr>hs_handed := h\<rparr>) = env_std s" "env_std (s\<lparr>hs_body_limit := b\<rparr>) = env_std s"
  "env_std (s\<lparr>hs_expires := e\<rparr>) = env_std s"
  by (simp_all add: env_std_def faults_std_def)

section \<open>Requests and the state of the connection\<close>

text \<open>Handling a request works on the process state and the response; anything else stays as it is.\<close>

definition app_closed :: "('a app_scheme \<Rightarrow> bool) \<Rightarrow> bool" where
  "app_closed I \<longleftrightarrow> (\<forall>s n p i e r q x f a. I s \<longrightarrow>
     I (s\<lparr>clk_pos := n\<rparr>) \<and> I (s\<lparr>rng_pos := p\<rparr>) \<and> I (s\<lparr>log_instance := i\<rparr>) \<and> I (s\<lparr>log_stderr := e\<rparr>) \<and>
     I (s\<lparr>db_rows := r\<rparr>) \<and> I (s\<lparr>db_seq := q\<rparr>) \<and> I (s\<lparr>db_tx := x\<rparr>) \<and> I (s\<lparr>db_faults := f\<rparr>) \<and> I (s\<lparr>app_res := a\<rparr>))"

lemma app_closedD:
  assumes "app_closed I" and "I s"
  shows "I (s\<lparr>clk_pos := n\<rparr>)" "I (s\<lparr>rng_pos := p\<rparr>)" "I (s\<lparr>log_instance := i\<rparr>)" "I (s\<lparr>log_stderr := e\<rparr>)"
    "I (s\<lparr>db_rows := r\<rparr>)" "I (s\<lparr>db_seq := q\<rparr>)" "I (s\<lparr>db_tx := x\<rparr>)" "I (s\<lparr>db_faults := f\<rparr>)" "I (s\<lparr>app_res := a\<rparr>)"
    "I (s\<lparr>clk_pos := n, log_instance := i, log_stderr := e\<rparr>)"
    "I (s\<lparr>db_rows := r, db_tx := x\<rparr>)"
  using assms unfolding app_closed_def by blast+

lemma preserves_app:
  assumes "app_closed I"
  shows "preserves I (handle_request (main_router L) req)"
proof -
  note closed = app_closedD [OF assms]
  have log: "preserves I (LOG L level m at)" for level m at
    by (rule preserves_LOG) (rule closed)
  have mods: "preserves I system_now" "preserves I (fill_bytes n)" "preserves I next_fault" "preserves I (res_do f)" for n f
    using closed by (auto simp: preserves_def system_now_def fill_bytes_eq next_fault_def res_do_def modify_def
        split: list.splits)
  note rules = preserves_rules log mods preserves_modify preserves_at_exit
  have db: "preserves I commit" "preserves I db_begin" "preserves I (db_query q)" "preserves I (db_persist v)" for q v
    unfolding db_defs by (intro rules; simp add: closed)+
  have get: "preserves I (getUserByUsername L n)" for n
    unfolding getUserByUsername_def transaction_def by (intro rules db) (simp_all add: closed)
  have create: "preserves I (createUser L u)" for u
    unfolding createUser_def odb_Create_def odb_catch_def transaction_def by (intro rules get db) (simp_all add: closed)
  have utilities: "preserves I (HashPasswordWithArgon2 L p)" "preserves I (VerifyUserPassword L h salt p)"
      "preserves I (CreateJWTToken L u)" "preserves I (ValidateToken L req)" "preserves I (reply st ct b)"
    for p h salt u st ct b
    unfolding HashPasswordWithArgon2_def GenerateRandomSalt_def VerifyUserPassword_def VerifyPasswordWithArgon2_def
      CreateJWTToken_def ValidateToken_def VerifyToken_def rethrow_def reply_def Let_def
    by (intro rules)+
  have services: "preserves I (CreateUser L (user_repository_of L) b)" "preserves I (UserLogin L (user_repository_of L) b)" for b
    unfolding CreateUser_def UserLogin_def service_catch_def login_not_found_def user_repository_of_def user_repo.simps Let_def
    by (intro rules get create utilities)+
  have handlers: "preserves I (handleCreateUser L (user_repository_of L) req)"
      "preserves I (handleUserLogin L (user_repository_of L) req)"
      "preserves I (WithAuthentication L (handleHelloWorld L) req)"
    unfolding handleCreateUser_def handleUserLogin_def WithAuthentication_def handleHelloWorld_def Let_def
    by (intro rules services utilities)+
  show ?thesis
    unfolding handle_request_def router_handleRequest_def find_main_router
    by (intro rules utilities) (auto split: if_splits intro: handlers closed)
qed

text \<open>The fields of the connection.\<close>

definition conn_of :: "'a session_scheme \<Rightarrow>
    http_op option \<times> nat option \<times> nat option \<times> http_socket \<times> http_request list \<times> http_request list \<times> http_response list" where
  "conn_of s = (hs_op s, hs_body_limit s, hs_expires s, hs_socket s, hs_handed s, hs_reads s, hs_writes s)"

lemma conn_of_closed: "app_closed (\<lambda>s. conn_of s = c)"
  by (simp add: app_closed_def conn_of_def)

lemma handle_request_conn: "handle_request (main_router L) req s = (r, t) \<Longrightarrow> conn_of t = conn_of s"
  by (rule preserves_result [OF preserves_app [OF conn_of_closed]]) simp_all

lemma LOG_conn: "LOG L level m at s = (r, t) \<Longrightarrow> conn_of t = conn_of s"
proof -
  have "preserves (\<lambda>u. conn_of u = conn_of s) (LOG L level m at)"
    by (rule preserves_LOG) (simp add: conn_of_def)
  then show "LOG L level m at s = (r, t) \<Longrightarrow> conn_of t = conn_of s" by (rule preserves_result) simp_all
qed

lemma conn_of_fields:
  "conn_of t = conn_of s \<longleftrightarrow> hs_op t = hs_op s \<and> hs_body_limit t = hs_body_limit s \<and> hs_expires t = hs_expires s \<and>
     hs_socket t = hs_socket s \<and> hs_handed t = hs_handed s \<and> hs_reads t = hs_reads s \<and> hs_writes t = hs_writes s"
  by (auto simp: conn_of_def)

text \<open>Each response written so far is an answer of the router to the request of its position.\<close>

definition answered_in_order :: "('j, 'd) lib \<Rightarrow> 'a session_scheme \<Rightarrow> bool" where
  "answered_in_order L s \<longleftrightarrow> list_all2 (\<lambda>req res. \<exists>u v :: 'a session_scheme. handle_request (main_router L) req u = (Inr res, v))
     (take (length (hs_writes s)) (hs_reads s)) (hs_writes s)"

definition served :: "('j, 'd) lib \<Rightarrow> 'a session_scheme \<Rightarrow> bool" where
  "served L s \<longleftrightarrow> session_inv s \<and> answered_in_order L s"

lemma served_conn:
  fixes s t :: "'a session_scheme"
  shows "conn_of t = conn_of s \<Longrightarrow> served L t = served L s"
  by (simp add: served_def session_inv_def answered_in_order_def conn_of_fields)

lemma fail_served: "preserves (served L) (hs_fail L msg ec op)"
  unfolding hs_fail_def by (intro preserves_rules preserves_LOG) (simp add: served_conn conn_of_def served_def
      session_inv_def answered_in_order_def)

lemma on_read_served:
  fixes s :: "'a session_scheme"
  assumes "served L s" and "hs_op s = Some Reading"
  shows "wp (hs_on_read L msg up (main_router L) ec req) (\<lambda>r t. served L t) (s\<lparr>hs_op := None\<rparr>)"
proof -
  have idle: "served L (s\<lparr>hs_op := None\<rparr>)" and len: "length (hs_writes s) = length (hs_reads s)"
    using assms by (auto simp: served_def session_inv_def answered_in_order_def)
  have fail: "wp (hs_fail L msg ec op) (\<lambda>r t. served L t) (s\<lparr>hs_op := None\<rparr>)" for op
    using preservesD [OF fail_served idle] by (simp add: wp_outcome)
  let ?u = "s\<lparr>hs_op := None, hs_reads := hs_reads s @ [req]\<rparr>"
  have asked: "served L ?u" using assms len by (auto simp: served_def session_inv_def answered_in_order_def)
  obtain r t where r: "handle_request (main_router L) req ?u = (r, t)" by fastforce
  note t = handle_request_conn [OF r]
  have "served L t" using asked served_conn [OF t, of L] by blast
  moreover have "served L (t\<lparr>hs_op := Some (Writing res), hs_writes := hs_writes t @ [res]\<rparr>)" if res: "r = Inr res" for res
  proof -
    have "list_all2 (\<lambda>req res. \<exists>u v :: 'a session_scheme. handle_request (main_router L) req u = (Inr res, v))
        (hs_reads s @ [req]) (hs_writes s @ [res])"
      using assms(1) len r res by (intro list_all2_appendI) (auto simp: served_def answered_in_order_def)
    with t assms len show ?thesis
      by (auto simp: served_def session_inv_def answered_in_order_def conn_of_fields)
  qed
  ultimately have "wp (seq (handle_request (main_router L) req) (\<lambda>response.
      modify (\<lambda>s. s\<lparr>hs_op := Some (Writing response), hs_writes := hs_writes s @ [response]\<rparr>))) (\<lambda>r t. served L t) ?u"
    by (simp add: wp_seq wp_def [of "handle_request _ _"] r wp_modify split: sum.split)
  then show ?thesis
    using fail idle
    by (auto simp: hs_on_read_def hs_send_def [abs_def] wp_rules shutdown_send_def served_def session_inv_def answered_in_order_def)
qed

lemma on_write_served:
  assumes "served L s" and "hs_op s = Some (Writing res)"
  shows "wp (hs_on_write L msg ec close) (\<lambda>r t. served L t) (s\<lparr>hs_op := None\<rparr>)"
proof -
  have idle: "served L (s\<lparr>hs_op := None\<rparr>)" using assms by (auto simp: served_def session_inv_def answered_in_order_def)
  have fail: "wp (hs_fail L msg ec op) (\<lambda>r t. served L t) (s\<lparr>hs_op := None\<rparr>)" for op
    using preservesD [OF fail_served idle] by (simp add: wp_outcome)
  then show ?thesis
    using assms
    by (auto simp: hs_on_write_def wp_rules shutdown_send_def do_read_def served_def session_inv_def answered_in_order_def)
qed

lemma step_served: "preserves (served L) (session_step L msg up eof (main_router L) ev)"
proof (rule preserves_wp)
  fix s :: "'a session_scheme"
  assume s: "served L s"
  show "wp (session_step L msg up eof (main_router L) ev) (\<lambda>r t. served L t) s"
    using s on_read_served [OF s] on_write_served [OF s]
    by (auto simp: session_step_def wp_rules op_done_def split: option.split http_op.split http_event.split)
qed

lemma run_served: "preserves (served L) (session_run L msg up eof (main_router L) evs)"
  by (induction evs) (auto intro!: preserves_rules step_served)

lemma new_session_served: "new_session s \<Longrightarrow> wp hs_run (\<lambda>r t. r = Inr () \<and> served L t) s"
  by (simp add: hs_run_def do_read_def wp_rules new_session_def served_def session_inv_def answered_in_order_def)

lemma fail_value: "log_total L \<Longrightarrow> wp (hs_fail L msg ec op) (\<lambda>r t. r = Inr () \<and> conn_of t = conn_of s \<and> (env_std s \<longrightarrow> env_std t)) s"
  unfolding hs_fail_def by (auto simp: wp_rules intro!: wp_LOG simp: conn_of_def)

lemma fail_outcome:
  fixes u :: "'a session_scheme"
  assumes "log_total L" and "env_std u" and "hs_socket u = Connected"
  shows "\<exists>t. hs_fail L msg ec op u = (Inr (), t) \<and> env_std t \<and> hs_op t = hs_op u \<and> hs_socket t = Connected"
  using fail_value [OF assms(1), of msg ec op u] assms(2,3) by (auto simp: wp_def conn_of_fields split: prod.splits)

lemma request_handled:
  fixes u :: "'a session_scheme"
  assumes "log_total L" and "lib_throws_std L" and "env_std u" and "hs_socket u = Connected"
  shows "\<exists>res t. handle_request (main_router L) req u = (Inr res, t) \<and> env_std t \<and> hs_socket t = Connected"
proof -
  obtain res t where t: "handle_request (main_router L) req u = (Inr res, t)"
    using request_outcome [OF assms(1-3)] by blast
  then have "env_std t" using safe_result [OF handle_request_env [OF assms(1,2)] assms(3)] by blast
  with t handle_request_conn [OF t] assms(4) show ?thesis by (simp add: conn_of_fields)
qed

lemma read_outcome:
  fixes u :: "'a session_scheme"
  assumes "log_total L" and "lib_throws_std L" and "env_std u" and "hs_op u = None" and "hs_socket u = Connected"
  shows "\<exists>t. hs_on_read L msg is_upgrade (main_router L) ec req u = (Inr (), t) \<and> env_std t \<and>
    (hs_op t, hs_socket t) =
      (if ec = End_of_stream then (None, Shutdown_send)
       else if ec \<noteq> Ok then (None, Connected)
       else if is_upgrade req then (None, Released)
       else (Some (Writing (last (hs_writes t))), Connected))"
proof -
  consider "ec = End_of_stream" | "ec \<noteq> End_of_stream" "ec \<noteq> Ok" | "ec = Ok" "is_upgrade req" | "ec = Ok" "\<not> is_upgrade req"
    by blast
  then show ?thesis
  proof cases
    case 2
    with fail_outcome [OF assms(1,3,5), of msg ec "''read''"] assms(4) show ?thesis by (auto simp: hs_on_read_def)
  next
    case 4
    have "env_std (u\<lparr>hs_reads := x\<rparr>)" "hs_socket (u\<lparr>hs_reads := x\<rparr>) = Connected" for x using assms(3,5) by simp_all
    from request_handled [OF assms(1,2) this, of req "hs_reads u @ [req]"] 4 show ?thesis
      by (auto simp: hs_on_read_def hs_send_def seq_def modify_def)
  qed (use assms(3-5) in \<open>auto simp: hs_on_read_def modify_def shutdown_send_def\<close>)
qed

lemma write_outcome:
  fixes u :: "'a session_scheme"
  assumes "log_total L" and "env_std u" and "hs_op u = None" and "hs_socket u = Connected"
  shows "\<exists>t. hs_on_write L msg ec close u = (Inr (), t) \<and> env_std t \<and>
    (hs_op t, hs_socket t) =
      (if ec \<noteq> Ok then (None, Connected) else if close then (None, Shutdown_send) else (Some Reading, Connected))"
proof (cases "ec = Ok")
  case False
  with fail_outcome [OF assms(1,2,4), of msg ec "''write''"] assms(3) show ?thesis by (auto simp: hs_on_write_def)
qed (use assms in \<open>auto simp: hs_on_write_def modify_def shutdown_send_def do_read_def\<close>)

lemma step_outcome:
  fixes s :: "'a session_scheme"
  assumes "log_total L" and "lib_throws_std L" and "env_std s" and "session_inv s" and "hs_op s = Some op"
  shows "\<exists>t. session_step L msg is_upgrade need_eof (main_router L) ev s = (Inr (), t) \<and> env_std t \<and>
    (hs_op t, hs_socket t) = (case (op, ev) of
       (Reading, Read_done ec req) \<Rightarrow>
         if ec = End_of_stream then (None, Shutdown_send)
         else if ec \<noteq> Ok then (None, Connected)
         else if is_upgrade req then (None, Released)
         else (Some (Writing (last (hs_writes t))), Connected)
     | (Writing res, Write_done ec) \<Rightarrow>
         if ec \<noteq> Ok then (None, Connected)
         else if need_eof res then (None, Shutdown_send)
         else (Some Reading, Connected)
     | _ \<Rightarrow> (Some op, Connected))"
proof -
  let ?u = "s\<lparr>hs_op := None\<rparr>"
  have conn: "hs_socket s = Connected" using assms(4,5) by (simp add: session_inv_def)
  then have u: "env_std ?u" "hs_op ?u = None" "hs_socket ?u = Connected" using assms(3) by simp_all
  show ?thesis
  proof (cases op)
    case Reading
    with read_outcome [OF assms(1,2) u] assms(3,5) conn show ?thesis
      by (cases ev) (auto simp: session_step_def op_done_def seq_def get_def modify_def ret_def)
  next
    case (Writing res)
    with write_outcome [OF assms(1) u] assms(3,5) conn show ?thesis
      by (cases ev) (auto simp: session_step_def op_done_def seq_def get_def modify_def ret_def)
  qed
qed

section \<open>Properties\<close>

text \<open>
  One connection, one operation, answers in order. After any sequence of completions, successful or
  not, in any order and with any requests, at most one operation is outstanding and only on a
  connected socket; each read was started with a body limit of 10000 bytes and a timeout of 100
  seconds; and the responses written are, one for one and in order, answers of the router to the
  requests that were read.
\<close>

theorem session_answers_in_order:
  fixes s t :: "'a session_scheme"
  assumes "new_session s"
    and "seq hs_run (\<lambda>_. session_run L msg is_upgrade need_eof (main_router L) evs) s = (r, t)"
  shows "session_inv t \<and> list_all2 (\<lambda>req res. \<exists>u v :: 'a session_scheme. handle_request (main_router L) req u = (Inr res, v))
     (take (length (hs_writes t)) (hs_reads t)) (hs_writes t)"
proof -
  obtain u where u: "hs_run s = (Inr (), u)" "served L u"
    using new_session_served [OF assms(1), of L] by (auto simp: wp_def split: prod.splits)
  then have "session_run L msg is_upgrade need_eof (main_router L) evs u = (r, t)" using assms(2) by (simp add: seq_def)
  from preserves_result [OF run_served u(2) this] show ?thesis by (simp add: served_def answered_in_order_def)
qed

definition demo_session :: session where
  "demo_session = app.extend demo_app \<lparr>hs_op = None, hs_body_limit = None, hs_expires = None, hs_socket = Connected,
     hs_handed = [], hs_reads = [], hs_writes = []\<rparr>"

theorem session_answers_in_order_witness:
  "session_inv (snd (seq hs_run (\<lambda>_. session_run demo_lib (\<lambda>_. []) (\<lambda>_. False) (\<lambda>_. False) (main_router demo_lib)
     [Read_done Ok (demo_request ''/user/create'' None ''ann:pw''), Write_done Ok, Read_done End_of_stream (demo_request [] None [])]) demo_session))"
proof -
  have "new_session demo_session" by (simp add: new_session_def demo_session_def app.extend_def)
  from session_answers_in_order [OF this prod.collapse [symmetric]] show ?thesis by blast
qed



end
