(* ===== verification/UserTable.thy ===== *)
theory UserTable
  imports Endpoints
begin

text \<open>
  What the table holds after any number of requests: the types of the columns as the service fills
  them.
\<close>

section \<open>Well-formed rows\<close>

text \<open>Lower-case hexadecimal of \<open>n\<close> bytes.\<close>

definition hex_text :: "nat \<Rightarrow> string \<Rightarrow> bool" where
  "hex_text n s \<longleftrightarrow> length s = 2 * n \<and> set s \<subseteq> set ''0123456789abcdef''"

definition row_typed :: "user \<Rightarrow> bool" where
  "row_typed u \<longleftrightarrow> hex_text 32 (u_passwordHash u) \<and> hex_text 16 (u_salt u)"

text \<open>argon2 fills the whole of the buffer it is given.\<close>

definition argon2_fills :: "('j, 'd) lib \<Rightarrow> bool" where
  "argon2_fills L \<longleftrightarrow> (\<forall>t m p pwd salt n. length (snd (argon2i_hash_raw L t m p pwd salt n)) = n)"

lemma toHexString_text: "hex_text (length bs) (toHexString bs)"
proof -
  have "set (toHexString bs) \<subseteq> lower_hex"
  proof (induction bs)
    case (Cons b bs)
    have "unat b div 16 < 16" "unat b mod 16 < 16"
      using unat_byte [of b] by (auto intro: less_mult_imp_div_less)
    with Cons hex_digit_facts show ?case by simp
  qed simp
  then show ?thesis by (simp add: hex_text_def lower_hex_def)
qed

lemma row_for_typed: "argon2_fills L \<Longrightarrow> row_for L n p u \<Longrightarrow> row_typed u"
proof -
  assume fills: "argon2_fills L" and row: "row_for L n p u"
  then obtain salt raw where s: "length salt = 16" "argon2_hash L p salt = Some raw"
    "u_passwordHash u = toHexString raw" "u_salt u = toHexString salt" by (auto simp: row_for_def)
  have "raw = snd (argon2i_hash_raw L 2 65536 1 p salt 32)"
    using s(2) by (auto simp: argon2_hash_def Let_def split: prod.splits if_splits)
  then have "length raw = 32" using fills by (simp add: argon2_fills_def)
  with s toHexString_text [of raw] toHexString_text [of salt] show ?thesis by (simp add: row_typed_def)
qed

section \<open>Requests\<close>

fun serve_all :: "('j, 'd) lib \<Rightarrow> http_request list \<Rightarrow> 'a app_scheme \<Rightarrow> 'a app_scheme" where
  "serve_all L [] s = s"
| "serve_all L (req # reqs) s = serve_all L reqs (snd (handle_request (main_router L) req s))"

definition table_of :: "'a dbsys_scheme \<Rightarrow> user list \<times> int \<times> user list option" where
  "table_of s = (db_rows s, db_seq s, db_tx s)"

lemma table_of_wf: "table_of t = table_of s \<Longrightarrow> table_wf t = table_wf s"
  by (simp add: table_of_def table_wf_def)

lemma reply_table: "preserves (\<lambda>t. table_of t = c) (reply st ct b)"
  unfolding reply_def res_do_def by (intro preserves_rules preserves_modify) (simp_all add: table_of_def)

lemma protected_table: "preserves (\<lambda>t. table_of t = c) (WithAuthentication L (handleHelloWorld L) req)"
proof -
  have log: "preserves (\<lambda>t. table_of t = c) (LOG L level m at)" for level m at
    by (rule preserves_LOG) (simp add: table_of_def)
  have mods: "preserves (\<lambda>t. table_of t = c) system_now" "preserves (\<lambda>t. table_of t = c) (res_do f)" for f
    by (auto simp: preserves_def system_now_def res_do_def modify_def table_of_def)
  show ?thesis
    unfolding WithAuthentication_def handleHelloWorld_def ValidateToken_def VerifyToken_def reply_def Let_def
    by (intro preserves_rules log mods)
qed

lemma request_table:
  fixes s :: "'a app_scheme"
  assumes "log_total L" and "lib_throws_std L" and "table_wf s" and "env_std s"
    and "handle_request (main_router L) req s = (r, t)"
  shows "table_wf t \<and> env_std t \<and>
    (db_rows t = db_rows s \<or> (\<exists>n p u. row_for L n p u \<and> db_rows t = db_rows s @ [u]))"
proof -
  have env: "env_std t"
    using safe_result [OF handle_request_env [OF assms(1,2)] assms(4,5)] by blast
  consider (create) "req_method req = ''POST''" "req_target req = ''/user/create''"
    | (login) "req_method req = ''POST''" "req_target req = ''/user/login''"
    | (other) "req_method req \<noteq> ''POST'' \<or> req_target req \<notin> {''/user/create'', ''/user/login''}" by blast
  then show ?thesis
  proof cases
    case create
    from create_answer [OF assms(1-4) create] assms(5) env show ?thesis
      by (auto simp: same_users_def registered_def)
  next
    case login
    from login_answer [OF assms(1-4) login] assms(5) env show ?thesis
      by (auto simp: same_users_def)
  next
    case other
    have "preserves (\<lambda>t. table_of t = table_of s) (handle_request (main_router L) req)"
      unfolding handle_request_def router_handleRequest_def find_main_router
      by (intro preserves_rules preserves_modify)
         (use other protected_table reply_table in \<open>auto simp: table_of_def split: if_splits\<close>)
    from preserves_result [OF this _ assms(5)] table_of_wf [of t s] assms(3) env show ?thesis
      by (auto simp: table_of_def)
  qed
qed

lemma serve_all_typed:
  fixes s :: "'a app_scheme"
  assumes "log_total L" and "lib_throws_std L" and "argon2_fills L" and "table_wf s" and "env_std s"
    and "\<forall>u \<in> set (db_rows s). row_typed u"
  shows "table_wf (serve_all L reqs s) \<and> (\<forall>u \<in> set (db_rows (serve_all L reqs s)). row_typed u) \<and>
    (\<exists>new. db_rows (serve_all L reqs s) = db_rows s @ new \<and> length new \<le> length reqs)"
  using assms(4-6)
proof (induction reqs arbitrary: s)
  case (Cons req reqs)
  obtain r t where t: "handle_request (main_router L) req s = (r, t)" by fastforce
  note one = request_table [OF assms(1,2) Cons.prems(1,2) t]
  have typed: "\<forall>u \<in> set (db_rows t). row_typed u"
    using one Cons.prems(3) row_for_typed [OF assms(3)] by auto
  from Cons.IH [of t] one typed obtain new where "table_wf (serve_all L reqs t)"
    "\<forall>u \<in> set (db_rows (serve_all L reqs t)). row_typed u"
    "db_rows (serve_all L reqs t) = db_rows t @ new" "length new \<le> length reqs" by blast
  with one t show ?case by auto
qed simp

section \<open>Properties\<close>

text \<open>
  The stored users are well typed and only grow. If every row holds 64 lower-case hexadecimal digits as
  its hash and 32 as its salt, then any number of requests of any kind, whatever fails during them, leaves
  a table with the rows there were, unchanged and in their place, and after them new rows of the
  same form; identifiers stay distinct and no transaction is left open. No request edits or removes a user.
\<close>

theorem users_typed:
  fixes s :: "'a app_scheme"
  assumes "log_total L" and "lib_throws_std L" and "argon2_fills L" and "table_wf s" and "env_std s"
    and "\<forall>u \<in> set (db_rows s). row_typed u"
  shows "table_wf (serve_all L reqs s) \<and> (\<forall>u \<in> set (db_rows (serve_all L reqs s)). row_typed u) \<and>
    (\<exists>new. db_rows (serve_all L reqs s) = db_rows s @ new \<and> length new \<le> length reqs)"
  by (rule serve_all_typed [OF assms])

theorem users_typed_witness:
  "table_wf (serve_all demo_lib [demo_request ''/user/create'' None ''ann:pw'', demo_request ''/user/login'' None ''ann:pw''] demo_app) \<and>
   (\<exists>new. db_rows (serve_all demo_lib [demo_request ''/user/create'' None ''ann:pw'',
      demo_request ''/user/login'' None ''ann:pw''] demo_app) = new \<and> length new \<le> 2)"
proof -
  have "argon2_fills demo_lib" by (auto simp: argon2_fills_def demo_argon2_def min_def)
  from users_typed [OF demo_log_total demo_throws_std this demo_app_facts(1,2),
      of "[demo_request ''/user/create'' None ''ann:pw'', demo_request ''/user/login'' None ''ann:pw'']"]
  show ?thesis by (simp add: demo_app_facts)
qed

end
