(* ===== verification/ServerStack.thy ===== *)
theory ServerStack
  imports RepositoryStack HttpSession UserTable
begin

text \<open>
  The whole server on the generated code: the router of \<open>main\<close> with the operations of \<open>OdbUser\<close> as its
  database does, request by request and event by event, what the router on the table does. Everything
  above the repositories, from the services to the connection, never looks at the statement cache, so
  the simulation of \<open>RepositoryStack\<close> passes through it.
\<close>

section \<open>What does not look at the statement cache\<close>

lemma blind_now [blind_rules]: "blind system_now"
  by (simp add: blind_def system_now_def put_def)

lemma blind_fill [blind_rules]: "blind (fill_bytes n)"
  by (simp add: blind_def fill_bytes_eq put_def next_bytes_def)

lemma blind_res_do [blind_rules]: "blind (res_do f)"
  unfolding res_do_def by (intro blind_rules) (simp add: put_def)

lemma blind_reply [blind_rules]: "blind (reply st ct b)"
  unfolding reply_def by (intro blind_rules)

lemma blind_pair [blind_rules]: "(\<And>a b. blind (m a b)) \<Longrightarrow> blind (case x of (a, b) \<Rightarrow> m a b)"
  by (cases x) simp

declare blind_catch [blind_rules] blind_at_exit [blind_rules]

lemma blind_security [blind_rules]:
  "blind (HashPasswordWithArgon2 L p)" "blind (VerifyUserPassword L h salt p)" "blind (CreateJWTToken L u)"
  "blind (VerifyToken L tok)" "blind (ValidateToken L req)"
  unfolding HashPasswordWithArgon2_def GenerateRandomSalt_def VerifyUserPassword_def VerifyPasswordWithArgon2_def
    CreateJWTToken_def VerifyToken_def ValidateToken_def rethrow_def Let_def
  by (intro blind_rules; simp add: put_def)+

lemma blind_session [blind_rules]:
  "blind (hs_fail L msg ec op)" "blind do_read" "blind shutdown_send" "blind (hs_send res)" "blind op_done"
  unfolding hs_fail_def do_read_def shutdown_send_def hs_send_def op_done_def
  by (intro blind_rules; simp add: put_def)+

lemma blind_on_write [blind_rules]: "blind (hs_on_write L msg ec close)"
  unfolding hs_on_write_def by (intro blind_rules)

lemma blind_hello [blind_rules]: "blind (WithAuthentication L (handleHelloWorld L) req)"
  unfolding WithAuthentication_def handleHelloWorld_def Let_def by (intro blind_rules)

section \<open>The services\<close>

lemma twin_repository:
  assumes "rt_laws rt"
  shows "twin (repo_texts ec) (ur_getUserByUsername (generated_db ec rt) L n) (ur_getUserByUsername table_db L n)"
    and "twin (repo_texts ec) (ur_createUser (generated_db ec rt) L u) (ur_createUser table_db L u)"
proof -
  have lookup: "blind (ur_getUserByUsername table_db L n)" for n
    unfolding ur_getUserByUsername_def by (intro blind_repo)
  then show "twin (repo_texts ec) (ur_getUserByUsername (generated_db ec rt) L n) (ur_getUserByUsername table_db L n)"
    by (simp add: twin_def lookup_simulates [OF assms])
  have "blind (ur_createUser table_db L u)"
    unfolding ur_createUser_def by (intro blind_repo lookup repo_Create_blind)
  then show "twin (repo_texts ec) (ur_createUser (generated_db ec rt) L u) (ur_createUser table_db L u)"
    by (simp add: twin_def register_simulates [OF assms])
qed

lemma twin_services:
  assumes "rt_laws rt"
  shows "twin (repo_texts ec) (CreateUser L (user_repository_on (generated_db ec rt) L) b) (CreateUser L (user_repository_on table_db L) b)"
    and "twin (repo_texts ec) (UserLogin L (user_repository_on (generated_db ec rt) L) b) (UserLogin L (user_repository_on table_db L) b)"
  unfolding CreateUser_def UserLogin_def service_catch_def catch2_def login_not_found_def user_repository_on_def user_repo.simps Let_def
  by (intro twin_catch twin_seq twin_if twin_pair twin_repository [OF assms] twin_blind blind_rules)+

lemma twin_handlers:
  assumes "rt_laws rt"
  shows "twin (repo_texts ec) (handleCreateUser L (user_repository_on (generated_db ec rt) L) req)
      (handleCreateUser L (user_repository_on table_db L) req)"
    and "twin (repo_texts ec) (handleUserLogin L (user_repository_on (generated_db ec rt) L) req)
      (handleUserLogin L (user_repository_on table_db L) req)"
  unfolding handleCreateUser_def handleUserLogin_def Let_def
  by (intro twin_catch twin_seq twin_if twin_services [OF assms] twin_blind blind_rules)+

lemma twin_request:
  assumes "rt_laws rt"
  shows "twin (repo_texts ec) (handle_request (main_router_on (generated_db ec rt) L) req) (handle_request (main_router L) req)"
proof -
  have "twin (repo_texts ec) (router_handleRequest (main_router_on (generated_db ec rt) L) req)
      (router_handleRequest (main_router L) req)"
    unfolding router_handleRequest_def find_main_router_on main_router_def
    by (auto intro!: twin_seq twin_handlers [OF assms] intro: twin_blind blind_rules)
  then show ?thesis
    unfolding handle_request_def by (intro twin_seq) (auto intro!: twin_blind blind_rules simp: put_def)
qed

section \<open>Connections\<close>

lemma twin_step:
  assumes "rt_laws rt"
  shows "twin (repo_texts ec) (session_step L msg up eof (main_router_on (generated_db ec rt) L) ev)
      (session_step L msg up eof (main_router L) ev)"
proof -
  have "twin (repo_texts ec) (hs_on_read L msg up (main_router_on (generated_db ec rt) L) code req)
      (hs_on_read L msg up (main_router L) code req)" for code req
    unfolding hs_on_read_def
    by (intro twin_if twin_seq twin_request [OF assms] twin_blind blind_rules) (simp_all add: put_def)
  then show ?thesis
    unfolding session_step_def
    by (intro twin_seq) (auto intro!: twin_seq twin_blind blind_rules simp: put_def split: option.split http_op.split http_event.split)
qed

lemma twin_session:
  assumes "rt_laws rt"
  shows "twin (repo_texts ec) (session_run L msg up eof (main_router_on (generated_db ec rt) L) evs)
      (session_run L msg up eof (main_router L) evs)"
  by (induction evs) (auto intro!: twin_seq twin_step [OF assms] twin_blind blind_rules)

lemma twin_connection:
  assumes "rt_laws rt"
  shows "twin (repo_texts ec) (seq hs_run (\<lambda>_. session_run L msg up eof (main_router_on (generated_db ec rt) L) evs))
      (seq hs_run (\<lambda>_. session_run L msg up eof (main_router L) evs))"
  unfolding hs_run_def by (intro twin_seq twin_session [OF assms] twin_blind blind_rules)

lemma serve_all_outcomes: "snd (outcomes (handle_request (main_router L)) reqs s) = serve_all L reqs s"
  by (induction reqs arbitrary: s) (simp_all add: case_prod_beta)

lemma answered_outcomes:
  fixes s :: "'a app_scheme"
  assumes "log_total L" and "lib_throws_std L" and "env_std s"
  shows "\<forall>r \<in> set (fst (outcomes (handle_request (main_router L)) reqs s)). \<exists>res. r = Inr res"
  using assms(3)
proof (induction reqs arbitrary: s)
  case (Cons req reqs)
  obtain res t where t: "handle_request (main_router L) req s = (Inr res, t)"
    using request_outcome [OF assms(1,2) Cons.prems] by blast
  have "env_std t" using safe_result [OF handle_request_env [OF assms(1,2)] Cons.prems t] by blast
  from Cons.IH [OF this] t show ?case by (simp add: case_prod_beta)
qed simp

section \<open>Properties\<close>


lemma demo_app_cache: "coherent (odb_sts demo_app)" "odb_sent demo_app = []"
  by (simp_all add: demo_app_def odbsys.extend_def dbsys.extend_def new_statements_coherent)


text \<open>
  A connection on the generated code. Any sequence of completions on a connection, in any order and with
  any error codes and requests, leaves with the router on the generated operations the connection and the
  process in the state they have with the router on the table: the same responses written, the same
  operation outstanding, the same socket, table and log. Only the statement cache differs, and it is
  coherent.
\<close>

theorem connection_on_generated:
  assumes "rt_laws rt" and "coherent (odb_sts s)"
  shows "\<exists>st h. coherent st \<and> set h \<subseteq> repo_texts ec \<and>
    seq hs_run (\<lambda>_. session_run L msg is_upgrade need_eof (main_router_on (generated_db ec rt) L) evs) s =
      (fst (seq hs_run (\<lambda>_. session_run L msg is_upgrade need_eof (main_router L) evs) s),
       snd (seq hs_run (\<lambda>_. session_run L msg is_upgrade need_eof (main_router L) evs) s)
         \<lparr>odb_sts := st, odb_sent := odb_sent s @ h\<rparr>)"
  by (rule twinD [OF twin_connection [OF assms(1)] assms(2)])

theorem connection_on_generated_witness:
  "\<exists>st h. coherent st \<and> set h \<subseteq> repo_texts ''WHERE username = $1'' \<and>
    seq hs_run (\<lambda>_. session_run demo_lib (\<lambda>_. []) (\<lambda>_. False) (\<lambda>_. False)
        (main_router_on (generated_db ''WHERE username = $1'' demo_rt) demo_lib)
        [Read_done Ok (demo_request ''/user/create'' None ''ann:pw''), Write_done Ok]) demo_session =
      (fst (seq hs_run (\<lambda>_. session_run demo_lib (\<lambda>_. []) (\<lambda>_. False) (\<lambda>_. False) (main_router demo_lib)
        [Read_done Ok (demo_request ''/user/create'' None ''ann:pw''), Write_done Ok]) demo_session),
       snd (seq hs_run (\<lambda>_. session_run demo_lib (\<lambda>_. []) (\<lambda>_. False) (\<lambda>_. False) (main_router demo_lib)
        [Read_done Ok (demo_request ''/user/create'' None ''ann:pw''), Write_done Ok]) demo_session)
         \<lparr>odb_sts := st, odb_sent := odb_sent demo_session @ h\<rparr>)"
proof -
  have "coherent (odb_sts demo_session)"
    using demo_app_cache(1) by (simp add: demo_session_def app.extend_def)
  from connection_on_generated [OF demo_rt_laws this] show ?thesis .
qed

end
