(* ===== verification/PooledRace.thy ===== *)
theory PooledRace
  imports UserRace ServerStack
begin

text \<open>
  Registrations on several threads over several connections to the database, on the generated code. A
  transaction gets some connection of the pool for its time (\<open>db->begin()\<close>), and the statement cache that
  goes with it; the next one of the same thread may get another. The table is shared, the caches are
  not.
\<close>

section \<open>The pool\<close>

fun run_pooled ::
  "string \<Rightarrow> odb_rt \<Rightarrow> ('j, 'd) lib \<Rightarrow> (nat \<times> nat) list \<Rightarrow> create_pc list \<Rightarrow> object_statements list
     \<Rightarrow> 'a odbsys_scheme \<Rightarrow> create_pc list \<times> object_statements list \<times> 'a odbsys_scheme" where
  "run_pooled ec rt L [] pcs pool s = (pcs, pool, s)"
| "run_pooled ec rt L ((i, k) # sched) pcs pool s =
     (if i < length pcs \<and> k < length pool
      then (case create_step_on (generated_db ec rt) L (pcs ! i) (s\<lparr>odb_sts := pool ! k\<rparr>) of
        (pc, t) \<Rightarrow> run_pooled ec rt L sched (pcs[i := pc]) (pool[k := odb_sts t]) t)
      else run_pooled ec rt L sched pcs pool s)"

text \<open>The schedule of the threads, without the moves for which there is no connection.\<close>

definition thread_moves :: "nat \<Rightarrow> (nat \<times> nat) list \<Rightarrow> nat list" where
  "thread_moves n sched = map fst (filter (\<lambda>(i, k). k < n) sched)"

section \<open>Any connection will do\<close>

lemma twin_Create:
  assumes "rt_laws rt"
  shows "twin (repo_texts ec) (repo_Create (generated_db ec rt) L u) (repo_Create table_db L u)"
  by (simp add: twin_def repo_Create_simulates [OF assms] repo_Create_blind)

lemma create_step_twin:
  assumes "rt_laws rt" and "coherent (odb_sts s)" and "create_step L pc s = (pc', t)"
  shows "\<exists>st h. coherent st \<and> set h \<subseteq> repo_texts ec \<and>
    create_step_on (generated_db ec rt) L pc s = (pc', put st (odb_sent s @ h) t)"
proof (cases pc)
  case (At_lookup u)
  from twinD [OF twin_repository(1) [OF assms(1)] assms(2)] obtain st h where
    "coherent st" "set h \<subseteq> repo_texts ec"
    "ur_getUserByUsername (generated_db ec rt) L (u_username u) s =
      (fst (ur_getUserByUsername table_db L (u_username u) s), put st (odb_sent s @ h) (snd (ur_getUserByUsername table_db L (u_username u) s)))"
    unfolding put_def by blast
  with At_lookup assms(3) show ?thesis
    by (intro exI [of _ st] exI [of _ h])
       (auto simp: create_step_table create_step_on_def split: prod.splits sum.splits if_splits)
next
  case (At_insert u)
  from twinD [OF twin_Create [OF assms(1)] assms(2)] obtain st h where
    "coherent st" "set h \<subseteq> repo_texts ec"
    "repo_Create (generated_db ec rt) L u s =
      (fst (repo_Create table_db L u s), put st (odb_sent s @ h) (snd (repo_Create table_db L u s)))"
    unfolding put_def by blast
  with At_insert assms(3) show ?thesis
    by (intro exI [of _ st] exI [of _ h])
       (auto simp: create_step_table create_step_on_def split: prod.splits sum.splits if_splits)
next
  case (Finished r)
  with assms(3) have "pc' = Finished r" "t = s" by (simp_all add: create_step_table create_step_on_def)
  with Finished assms(2) show ?thesis
    by (intro exI [of _ "odb_sts s"] exI [of _ "[]"]) (simp add: create_step_on_def)
qed

text \<open>The step on the table does not look at the cache it is run with.\<close>

lemma create_step_blind:
  "create_step L pc (put st h s) = (fst (create_step L pc s), put st h (snd (create_step L pc s)))"
proof -
  have "blind (ur_getUserByUsername table_db L n)" for n
    unfolding ur_getUserByUsername_def by (intro blind_repo)
  note run = blindD [OF this] blindD [OF repo_Create_blind]
  show ?thesis
    by (cases pc) (auto simp: create_step_table create_step_on_def run split: prod.splits sum.splits if_splits)
qed

lemma run_schedule_blind:
  "run_schedule L sched pcs (put st h s) = (fst (run_schedule L sched pcs s), put st h (snd (run_schedule L sched pcs s)))"
  by (induction sched arbitrary: pcs s) (simp_all add: create_step_blind split: prod.split)

lemma pooled_run:
  assumes "rt_laws rt" and "\<forall>st \<in> set pool. coherent st"
  shows "\<exists>pool' st h. run_pooled ec rt L sched pcs pool s =
      (fst (run_schedule L (thread_moves (length pool) sched) pcs s), pool',
       put st (odb_sent s @ h) (snd (run_schedule L (thread_moves (length pool) sched) pcs s))) \<and>
    length pool' = length pool \<and> (\<forall>st \<in> set pool'. coherent st) \<and> set h \<subseteq> repo_texts ec"
  using assms(2)
proof (induction sched arbitrary: pcs pool s)
  case Nil
  then show ?case by (intro exI [of _ pool] exI [of _ "odb_sts s"] exI [of _ "[]"]) (simp add: thread_moves_def)
next
  case (Cons m sched)
  obtain i k where m: "m = (i, k)" by (cases m)
  show ?case
  proof (cases "i < length pcs \<and> k < length pool")
    case False
    then have "run_schedule L (thread_moves (length pool) (m # sched)) pcs s = run_schedule L (thread_moves (length pool) sched) pcs s"
      by (auto simp: m thread_moves_def)
    with Cons.IH [OF Cons.prems, of pcs s] False show ?thesis by (auto simp: m)
  next
    case True
    let ?s = "put (pool ! k) (odb_sent s) s"
    have coh: "coherent (odb_sts ?s)" using True Cons.prems by simp
    obtain pc t where step: "create_step L (pcs ! i) s = (pc, t)" by fastforce
    then have "create_step L (pcs ! i) ?s = (pc, put (pool ! k) (odb_sent s) t)" by (simp add: create_step_blind)
    from create_step_twin [where ec = ec, OF assms(1) coh this] obtain st h where st: "coherent st" "set h \<subseteq> repo_texts ec"
      "create_step_on (generated_db ec rt) L (pcs ! i) ?s = (pc, put st (odb_sent s @ h) t)" by auto
    have "\<forall>c \<in> set (pool[k := st]). coherent c" using Cons.prems st(1) set_update_subset_insert [of pool k st] by auto
    from Cons.IH [OF this, of "pcs[i := pc]" "put st (odb_sent s @ h) t"] obtain pool' st' h' where
      rest: "run_pooled ec rt L sched (pcs[i := pc]) (pool[k := st]) (put st (odb_sent s @ h) t) =
        (fst (run_schedule L (thread_moves (length pool) sched) (pcs[i := pc]) t), pool',
         put st' ((odb_sent s @ h) @ h') (snd (run_schedule L (thread_moves (length pool) sched) (pcs[i := pc]) t)))"
      "length pool' = length pool" "\<forall>st \<in> set pool'. coherent st" "set h' \<subseteq> repo_texts ec"
      by (auto simp: run_schedule_blind)
    have "s\<lparr>odb_sts := pool ! k\<rparr> = ?s" by (simp add: put_def)
    with True st rest step show ?thesis
      by (intro exI [of _ pool'] exI [of _ st'] exI [of _ "h @ h'"]) (simp add: m thread_moves_def)
  qed
qed

section \<open>Properties\<close>

text \<open>
  C8: Registrations over a pool of connections. On the generated code, with any number of threads, any schedule
  and any assignment of connections to transactions, every thread ends as it does on the table, and in
  the same table; every cache of the pool is coherent again and six fixed texts were sent. So rows are
  only added, at most one for each thread and one for each reported success, a thread that had a
  connection twice is through, and distinct free names stay distinct.
\<close>

theorem registrations_over_pool:
  assumes "rt_laws rt" and "\<forall>st \<in> set pool. coherent st" and "table_wf s"
    and "run_pooled ec rt L sched (map At_lookup us) pool s = (pcs, pool', t)"
  shows "(\<exists>u. run_schedule L (thread_moves (length pool) sched) (map At_lookup us) s = (pcs, u) \<and>
      (\<exists>st h. t = u\<lparr>odb_sts := st, odb_sent := odb_sent s @ h\<rparr> \<and> set h \<subseteq> repo_texts ec)) \<and>
    (\<forall>st \<in> set pool'. coherent st) \<and> table_wf t \<and>
    (\<exists>who new. db_rows t = db_rows s @ new \<and> distinct who \<and>
      list_all2 (\<lambda>i x. i < length us \<and> (\<exists>k. x = (us ! i)\<lparr>u_id := k\<rparr>)) who new \<and>
      (\<forall>i < length us. \<forall>v. pcs ! i = Finished (Inr v) \<and> IsSuccess v \<longrightarrow> i \<in> set who)) \<and>
    (\<forall>i < length us. 2 \<le> count_list (thread_moves (length pool) sched) i \<longrightarrow> (\<exists>r. pcs ! i = Finished r)) \<and>
    (distinct (map u_username (db_rows s @ us)) \<longrightarrow> distinct (map u_username (db_rows t)))"
proof -
  obtain u st h where u: "run_schedule L (thread_moves (length pool) sched) (map At_lookup us) s = (pcs, u)"
    "t = put st (odb_sent s @ h) u" "\<forall>st \<in> set pool'. coherent st" "set h \<subseteq> repo_texts ec"
    using pooled_run [OF assms(1,2), of ec L sched "map At_lookup us" s] assms(4) by (auto simp: prod_eq_iff)
  have same: "db_rows t = db_rows u" "table_wf t = table_wf u" unfolding u(2) by (simp_all add: put_def table_wf_def)
  have "\<exists>st h. t = u\<lparr>odb_sts := st, odb_sent := odb_sent s @ h\<rparr> \<and> set h \<subseteq> repo_texts ec"
    using u(2,4) unfolding put_def by blast
  with u(1,3) registrations_any_schedule [OF assms(3) u(1)] show ?thesis unfolding same by blast
qed

theorem registrations_over_pool_witness:
  "let (pcs, pool, t) = run_pooled ''WHERE username = $1'' demo_rt demo_lib [(1, 0), (0, 1), (0, 0), (1, 0)]
      (map At_lookup [User ''ann'' ''h1'' ''s1'', User ''bob'' ''h2'' ''s2'']) [new_statements, new_statements]
      (demo_odb\<lparr>db_tx := None\<rparr>)
   in table_wf t \<and> (\<forall>i < 2. \<exists>r. pcs ! i = Finished r) \<and> (\<forall>st \<in> set pool. coherent st) \<and> distinct (map u_username (db_rows t))"
proof -
  let ?s = "demo_odb\<lparr>db_tx := None\<rparr>"
  obtain pcs pool t where run: "run_pooled ''WHERE username = $1'' demo_rt demo_lib [(1, 0), (0, 1), (0, 0), (1, 0)]
      (map At_lookup [User ''ann'' ''h1'' ''s1'', User ''bob'' ''h2'' ''s2'']) [new_statements, new_statements] ?s = (pcs, pool, t)"
    by (metis prod_cases3)
  have rows: "db_rows ?s = []" by (simp add: demo_odb_def demo_db_def dbsys.extend_def)
  have wf: "table_wf ?s" by (simp add: table_wf_def demo_odb_def demo_db_def dbsys.extend_def)
  have two: "2 \<le> count_list (thread_moves 2 [(1, 0), (0, 1), (0, 0), (1, 0)]) i" if "i < 2" for i
    using that by (auto simp: thread_moves_def less_2_cases_iff)
  have pool: "\<forall>st \<in> set [new_statements, new_statements]. coherent st" by (simp add: new_statements_coherent)
  from registrations_over_pool [OF demo_rt_laws pool wf run] two rows show ?thesis unfolding run by (simp add: numeral_2_eq_2)
qed

end
