(* ===== verification/Process.thy ===== *)
theory Process
  imports HttpSession UserTable "HOL-Library.Sublist"
begin

text \<open>
  The connections of the process together: \<^verbatim>\<open>src/Network/listener.cc\<close> starts an \<open>HttpSession\<close> for every socket it
  accepts, and the event loop runs their completion handlers in any order. The sessions have their own
  state and share the rest: the table, the clock, the generator, the log. A handler is one step; what can
  happen when two of them work on the table at the same time is the subject of \<open>UserRace\<close>.
\<close>

section \<open>State\<close>

text \<open>The fields of a session, and the process they are run in.\<close>

record conn =
  cn_op :: "http_op option"
  cn_body_limit :: "nat option"
  cn_expires :: "nat option"
  cn_socket :: http_socket
  cn_handed :: "http_request list"
  cn_reads :: "http_request list"
  cn_writes :: "http_response list"

record process =
  pr_app :: app
  pr_conns :: "conn list"

definition session_of :: "app \<Rightarrow> conn \<Rightarrow> session" where
  "session_of a c = app.extend a \<lparr>hs_op = cn_op c, hs_body_limit = cn_body_limit c, hs_expires = cn_expires c,
     hs_socket = cn_socket c, hs_handed = cn_handed c, hs_reads = cn_reads c, hs_writes = cn_writes c\<rparr>"

definition conn_part :: "session \<Rightarrow> conn" where
  "conn_part s = \<lparr>cn_op = hs_op s, cn_body_limit = hs_body_limit s, cn_expires = hs_expires s,
     cn_socket = hs_socket s, cn_handed = hs_handed s, cn_reads = hs_reads s, cn_writes = hs_writes s\<rparr>"

definition on_conn :: "nat \<Rightarrow> (session, 'b) prog \<Rightarrow> ('a process_scheme, 'b) prog" where
  "on_conn i m = (\<lambda>p. case m (session_of (pr_app p) (pr_conns p ! i)) of
     (r, t) \<Rightarrow> (r, p\<lparr>pr_app := app.truncate t, pr_conns := (pr_conns p)[i := conn_part t]\<rparr>))"

section \<open>Steps\<close>

text \<open>\<open>boost::make_shared<HttpSession>(std::move(socket), ...)->run()\<close> in \<open>Listener::on_accept\<close>.\<close>

definition new_HttpSession :: conn where
  "new_HttpSession = \<lparr>cn_op = None, cn_body_limit = None, cn_expires = None, cn_socket = Connected,
     cn_handed = [], cn_reads = [], cn_writes = []\<rparr>"

definition start_session :: "('a process_scheme, unit) prog" where
  "start_session =
     seq (get (\<lambda>p. length (pr_conns p))) (\<lambda>i.
     seq (modify (\<lambda>p. p\<lparr>pr_conns := pr_conns p @ [new_HttpSession]\<rparr>)) (\<lambda>_.
     on_conn i hs_run))"

datatype process_event = Connect | On_conn nat http_event

fun process_step ::
  "('j, 'd) lib \<Rightarrow> (error_code \<Rightarrow> string) \<Rightarrow> (http_request \<Rightarrow> bool) \<Rightarrow> (http_response \<Rightarrow> bool)
     \<Rightarrow> session handler router \<Rightarrow> process_event \<Rightarrow> ('a process_scheme, unit) prog" where
  "process_step L msg is_upgrade need_eof router Connect = start_session"
| "process_step L msg is_upgrade need_eof router (On_conn i ev) =
     seq (get (\<lambda>p. i < length (pr_conns p))) (\<lambda>exists.
     if exists then on_conn i (session_step L msg is_upgrade need_eof router ev) else ret ())"

fun process_run ::
  "('j, 'd) lib \<Rightarrow> (error_code \<Rightarrow> string) \<Rightarrow> (http_request \<Rightarrow> bool) \<Rightarrow> (http_response \<Rightarrow> bool)
     \<Rightarrow> session handler router \<Rightarrow> process_event list \<Rightarrow> ('a process_scheme, unit) prog" where
  "process_run L msg is_upgrade need_eof router [] = ret ()"
| "process_run L msg is_upgrade need_eof router (ev # evs) =
     seq (process_step L msg is_upgrade need_eof router ev) (\<lambda>_. process_run L msg is_upgrade need_eof router evs)"

text \<open>The requests that arrive on a connection, numbered by the order of the accepts.\<close>

fun requests_to :: "nat \<Rightarrow> process_event list \<Rightarrow> http_request list" where
  "requests_to i [] = []"
| "requests_to i (On_conn j (Read_done Ok req) # evs) = (if j = i then [req] else []) @ requests_to i evs"
| "requests_to i (ev # evs) = requests_to i evs"

section \<open>Views\<close>

lemma session_of_simps [simp]:
  "conn_part (session_of a c) = c" "app.truncate (session_of a c) = a"
  "hs_op (session_of a c) = cn_op c" "hs_reads (session_of a c) = cn_reads c" "hs_writes (session_of a c) = cn_writes c"
  by (simp_all add: session_of_def conn_part_def app.defs)

lemma session_of_parts: "session_of (app.truncate s) (conn_part s) = s"
  by (simp add: session_of_def conn_part_def app.defs)

lemma session_of_conn: "conn_of (session_of a c) = conn_of (session_of b c)"
  by (simp add: session_of_def conn_of_def app.defs)

lemma truncate_table [simp]:
  "db_rows (app.truncate s) = db_rows s" "table_wf (app.truncate s) = table_wf s" "env_std (app.truncate s) = env_std s"
  by (simp_all add: app.defs table_wf_def env_std_def faults_std_def)

lemma session_of_table [simp]:
  "db_rows (session_of a c) = db_rows a" "table_wf (session_of a c) = table_wf a" "env_std (session_of a c) = env_std a"
  by (simp_all add: session_of_def app.defs table_wf_def env_std_def faults_std_def)

section \<open>One event\<close>

text \<open>The table has the rows it had, unchanged, and typed ones after them.\<close>

definition grown :: "user list \<Rightarrow> 'a dbsys_scheme \<Rightarrow> bool" where
  "grown rows s \<longleftrightarrow> table_wf s \<and> env_std s \<and> (\<exists>new. db_rows s = rows @ new \<and> (\<forall>u \<in> set new. row_typed u))"

lemma grown_views [simp]:
  "grown rows (session_of a c) = grown rows a" "grown rows (app.truncate t) = grown rows t"
  by (simp_all add: grown_def)

lemma request_grown:
  assumes "log_total L" and "lib_throws_std L" and "argon2_fills L"
  shows "preserves (grown rows) (handle_request (main_router L) req :: ('a app_scheme, http_response) prog)"
proof -
  have "grown rows t" if "grown rows s" "handle_request (main_router L) req s = (r, t)" for r and s t :: "'a app_scheme"
    using request_table [OF assms(1,2) _ _ that(2)] that(1) row_for_typed [OF assms(3)]
    unfolding grown_def by fastforce
  then show ?thesis unfolding preserves_def by (metis prod.collapse)
qed

lemma step_grown:
  assumes "log_total L" and "lib_throws_std L" and "argon2_fills L"
  shows "preserves (grown rows) (session_step L msg up eof (main_router L) ev :: ('a session_scheme, unit) prog)"
proof -
  have upd: "grown rows (s\<lparr>hs_op := x\<rparr>) = grown rows s" "grown rows (s\<lparr>hs_reads := y\<rparr>) = grown rows s"
    "grown rows (s\<lparr>hs_socket := w\<rparr>) = grown rows s" "grown rows (s\<lparr>hs_handed := h\<rparr>) = grown rows s"
    "grown rows (s\<lparr>hs_writes := z\<rparr>) = grown rows s" "grown rows (s\<lparr>hs_body_limit := b\<rparr>) = grown rows s"
    "grown rows (s\<lparr>hs_expires := e\<rparr>) = grown rows s" for s :: "'a session_scheme" and x y w h z b e
    by (simp_all add: grown_def table_wf_def)
  have fail: "preserves (grown rows) (hs_fail L msg ec op :: ('a session_scheme, unit) prog)" for ec op
    unfolding hs_fail_def by (intro preserves_rules preserves_LOG) (simp add: grown_def table_wf_def env_std_def faults_std_def)
  have mods: "preserves (grown rows) (op_done :: ('a session_scheme, unit) prog)" "preserves (grown rows) (do_read :: ('a session_scheme, unit) prog)"
    "preserves (grown rows) (shutdown_send :: ('a session_scheme, unit) prog)"
    "preserves (grown rows) (hs_send res :: ('a session_scheme, unit) prog)" for res
    unfolding op_done_def do_read_def shutdown_send_def hs_send_def by (intro preserves_modify; simp add: upd)+
  have handlers: "preserves (grown rows) (hs_on_read L msg up (main_router L) ec req :: ('a session_scheme, unit) prog)"
    "preserves (grown rows) (hs_on_write L msg ec close :: ('a session_scheme, unit) prog)" for ec req close
    unfolding hs_on_read_def hs_on_write_def
    by (intro preserves_rules request_grown [OF assms] fail mods preserves_modify; simp add: upd)+
  show ?thesis
    unfolding session_step_def
    by (intro preserves_rules) (auto intro!: preserves_rules handlers mods split: option.split http_op.split http_event.split)
qed

lemma step_reads:
  assumes "session_step L msg up eof (main_router L) ev s = (r, t)"
  shows "hs_reads t = hs_reads s \<or> (\<exists>req. ev = Read_done Ok req \<and> hs_reads t = hs_reads s @ [req])"
proof -
  have fail: "hs_reads v = hs_reads u" if "hs_fail L msg ec op u = (q, v)" for ec op q and u v :: "'a session_scheme"
    using that LOG_conn [of L _ _ _ u q v] by (auto simp: hs_fail_def ret_def conn_of_fields split: if_splits)
  have asked: "hs_reads v = hs_reads u" if "handle_request (main_router L) req u = (q, v)" for req q and u v :: "'a session_scheme"
    using handle_request_conn [OF that] by (simp add: conn_of_fields)
  show ?thesis
    using assms
    by (auto simp: session_step_def op_done_def hs_on_read_def hs_on_write_def hs_send_def shutdown_send_def do_read_def
        seq_def get_def modify_def ret_def dest!: fail asked
        split: option.splits http_op.splits http_event.splits if_splits prod.splits sum.splits)
qed

lemma step_total:
  assumes "log_total L" and "lib_throws_std L" and "env_std s" and "session_inv s"
  shows "\<exists>t. session_step L msg up eof (main_router L) ev s = (Inr (), t)"
proof (cases "hs_op s")
  case None
  then show ?thesis by (simp add: session_step_def seq_def get_def ret_def)
next
  case (Some op)
  from step_outcome [OF assms Some] show ?thesis by blast
qed

section \<open>Any events\<close>

definition process_inv :: "('j, 'd) lib \<Rightarrow> user list \<Rightarrow> process_event list \<Rightarrow> 'a process_scheme \<Rightarrow> bool" where
  "process_inv L rows evs p \<longleftrightarrow> grown rows (pr_app p) \<and>
     length (pr_conns p) = count_list evs Connect \<and>
     (\<forall>i < length (pr_conns p). served L (session_of (pr_app p) (pr_conns p ! i)) \<and>
        subseq (cn_reads (pr_conns p ! i)) (requests_to i evs))"

lemma requests_to_append: "requests_to i (evs @ evs') = requests_to i evs @ requests_to i evs'"
  by (induction i evs rule: requests_to.induct) simp_all

lemma served_view: "served L (session_of a c) = served L (session_of b c)"
  by (rule served_conn) (rule session_of_conn)

lemma process_inv_step:
  assumes "log_total L" and "lib_throws_std L" and "argon2_fills L" and "process_inv L rows evs p"
  shows "\<exists>q. process_step L msg up eof (main_router L) ev p = (Inr (), q) \<and> process_inv L rows (evs @ [ev]) q"
proof (cases ev)
  case Connect
  let ?s = "session_of (pr_app p) new_HttpSession"
  have "new_session ?s" by (simp add: new_session_def session_of_def new_HttpSession_def app.defs)
  from new_session_served [OF this, of L] obtain t where t: "hs_run ?s = (Inr (), t)" "served L t"
    by (auto simp: wp_def split: prod.splits)
  have part: "app.truncate t = pr_app p" "cn_reads (conn_part t) = []"
    using t(1) by (auto simp: hs_run_def do_read_def modify_def session_of_def new_HttpSession_def conn_part_def app.defs)
  let ?q = "p\<lparr>pr_conns := pr_conns p @ [conn_part t]\<rparr>"
  have "process_step L msg up eof (main_router L) ev p = (Inr (), ?q)"
    using Connect t(1) part(1) by (simp add: start_session_def on_conn_def seq_def get_def modify_def)
  moreover have "served L (session_of (pr_app p) (conn_part t))"
    using t(2) session_of_parts [of t] part(1) by simp
  then have "process_inv L rows (evs @ [ev]) ?q"
    using assms(4) part(2) Connect
    by (simp add: process_inv_def nth_append requests_to_append less_Suc_eq all_conj_distrib)
  ultimately show ?thesis by blast
next
  case (On_conn i e)
  show ?thesis
  proof (cases "i < length (pr_conns p)")
    case False
    with assms(4) On_conn show ?thesis
      by (auto simp: seq_def get_def ret_def process_inv_def requests_to_append)
  next
    case True
    let ?s = "session_of (pr_app p) (pr_conns p ! i)"
    have s: "served L ?s" "grown rows ?s" "env_std ?s" "session_inv ?s"
      using assms(4) True by (auto simp: process_inv_def grown_def served_def)
    obtain t where t: "session_step L msg up eof (main_router L) e ?s = (Inr (), t)"
      using step_total [OF assms(1,2) s(3,4)] by blast
    have t': "served L t" "grown rows t"
      using preserves_result [OF step_served s(1) t] preserves_result [OF step_grown [OF assms(1-3)] s(2) t] by simp_all
    have reads: "subseq (cn_reads (conn_part t)) (requests_to i (evs @ [ev]))"
      using step_reads [OF t] assms(4) True On_conn
      by (auto simp: process_inv_def conn_part_def requests_to_append intro: list_emb_append_mono subseq_rev_drop_many)
    have other: "subseq xs (requests_to j evs) \<Longrightarrow> subseq xs (requests_to j (evs @ [ev]))" for xs j
      unfolding requests_to_append by (rule subseq_rev_drop_many)
    have "served L (session_of (app.truncate t) c) = served L (session_of (pr_app p) c)" for c by (rule served_view)
    moreover from this [of "conn_part t"] t'(1) have "served L (session_of (pr_app p) (conn_part t))"
      by (simp add: session_of_parts)
    ultimately show ?thesis using assms(4) True On_conn t t' reads other
      by (auto simp: on_conn_def seq_def get_def process_inv_def nth_list_update session_of_parts)
  qed
qed

lemma process_inv_run:
  assumes "log_total L" and "lib_throws_std L" and "argon2_fills L" and "process_inv L rows seen p"
  shows "\<exists>q. process_run L msg up eof (main_router L) evs p = (Inr (), q) \<and> process_inv L rows (seen @ evs) q"
  using assms(4)
proof (induction evs arbitrary: seen p)
  case (Cons ev evs)
  from process_inv_step [OF assms(1-3) Cons.prems, of msg up eof ev] obtain q where
    q: "process_step L msg up eof (main_router L) ev p = (Inr (), q)" "process_inv L rows (seen @ [ev]) q" by blast
  from Cons.IH [OF q(2)] q(1) show ?case by (simp add: seq_def)
qed (simp add: ret_def)

section \<open>Properties\<close>

text \<open>
  All connections together. For any number of connections and any order of their completions, with any
  error codes, requests and faults, no handler throws; there is a session for each accepted socket; each
  session has at most one operation outstanding, has read only requests that arrived on its own socket,
  in their order, and has written one for one and in order answers of the router to them, whatever the
  other sessions did in between; and the table has the rows it had, unchanged, and well-typed ones after
  them, with distinct identifiers and no transaction open.
\<close>

theorem process_serves_connections:
  fixes a :: app
  assumes "log_total L" and "lib_throws_std L" and "argon2_fills L" and "table_wf a" and "env_std a"
  shows "\<exists>q. process_run L msg is_upgrade need_eof (main_router L) evs \<lparr>pr_app = a, pr_conns = []\<rparr> = (Inr (), q) \<and>
    length (pr_conns q) = count_list evs Connect \<and>
    (\<forall>i < length (pr_conns q). let c = pr_conns q ! i in
       session_inv (session_of (pr_app q) c) \<and> subseq (cn_reads c) (requests_to i evs) \<and>
       list_all2 (\<lambda>req res. \<exists>u v :: session. handle_request (main_router L) req u = (Inr res, v))
         (take (length (cn_writes c)) (cn_reads c)) (cn_writes c)) \<and>
    table_wf (pr_app q) \<and> (\<exists>new. db_rows (pr_app q) = db_rows a @ new \<and> (\<forall>u \<in> set new. row_typed u))"
proof -
  have "process_inv L (db_rows a) [] \<lparr>pr_app = a, pr_conns = []\<rparr>"
    using assms(4,5) by (simp add: process_inv_def grown_def)
  from process_inv_run [OF assms(1-3) this, of msg is_upgrade need_eof evs] obtain q where
    "process_run L msg is_upgrade need_eof (main_router L) evs \<lparr>pr_app = a, pr_conns = []\<rparr> = (Inr (), q)" "process_inv L (db_rows a) evs q"
    by auto
  then show ?thesis by (auto simp: process_inv_def grown_def served_def answered_in_order_def Let_def)
qed

theorem process_serves_connections_witness:
  "\<exists>q. process_run demo_lib (\<lambda>_. []) (\<lambda>_. False) (\<lambda>_. False) (main_router demo_lib)
      [Connect, Connect, On_conn 1 (Read_done Ok (demo_request ''/user/create'' None ''ann:pw'')),
       On_conn 0 (Read_done Ok (demo_request ''/user/login'' None ''ann:pw'')), On_conn 1 (Write_done Ok)]
      \<lparr>pr_app = demo_app, pr_conns = []\<rparr> = (Inr (), q) \<and> length (pr_conns q) = 2 \<and>
    (\<forall>u \<in> set (db_rows (pr_app q)). row_typed u)"
proof -
  have "argon2_fills demo_lib" by (auto simp: argon2_fills_def demo_argon2_def min_def)
  from process_serves_connections [OF demo_log_total demo_throws_std this demo_app_facts(1,2), of "\<lambda>_. []" "\<lambda>_. False" "\<lambda>_. False"
      "[Connect, Connect, On_conn 1 (Read_done Ok (demo_request ''/user/create'' None ''ann:pw'')),
       On_conn 0 (Read_done Ok (demo_request ''/user/login'' None ''ann:pw'')), On_conn 1 (Write_done Ok)]"]
  show ?thesis by (auto simp: demo_app_facts)
qed

end
