(* ===== verification/WebSocket.thy ===== *)
theory WebSocket
  imports HttpSession
begin

text \<open>
  \<^verbatim>\<open>src/Network/WebSocketSession.{h,cc}\<close> and \<^verbatim>\<open>src/Network/SharedState.{h,cc}\<close>: the WebSocket sessions and
  the set of them that a broadcast goes to. Sessions live in an address space, so that a pointer kept too
  long would be seen; a session lives as long as a completion handler holds a shared pointer to it, is
  destroyed some time after the last one is gone, and its address may then be used again. The handlers
  of one session run one at a time, on its strand; those of different sessions, the destructors and
  the callers of \<open>SharedState::send\<close> are interleaved, with the sections under the mutex as single steps.
\<close>

section \<open>State\<close>

text \<open>
  \<open>ws_alive\<close>: a shared pointer exists. \<open>ws_gen\<close> tells apart the objects that had the same address; a
  weak pointer is an address with the generation. \<open>ws_accepts\<close>, \<open>ws_reads\<close> and \<open>ws_writes\<close> are the
  outstanding operations, a write with the text its buffer points to; \<open>ws_posted\<close> are the calls of \<open>on_send\<close>
  posted to the executor. History: \<open>ws_sent\<close>, what was passed to \<open>send\<close>; \<open>ws_wire\<close>, the completed writes;
  \<open>ws_failed\<close>, whether a write has failed.
\<close>

record ws_session =
  ws_alive :: bool
  ws_gen :: nat
  ws_buffer :: string
  ws_queue :: "string list"
  ws_posted :: "string list"
  ws_accepts :: nat
  ws_reads :: nat
  ws_writes :: "string list"
  ws_sent :: "string list"
  ws_wire :: "string list"
  ws_failed :: bool

text \<open>\<open>hub_sessions\<close> is \<open>sessions_\<close>. \<open>hub_senders\<close> are the calls of \<open>SharedState::send\<close> in progress.\<close>

record hub = sys +
  hub_sessions :: "nat set"
  hub_ws :: "nat \<Rightarrow> ws_session option"
  hub_gen :: nat
  hub_senders :: "(string \<times> (nat \<times> nat) list) list"

definition ws_site :: "int \<Rightarrow> string \<Rightarrow> site" where
  "ws_site line fn = (''src/Network/WebSocketSession.cc'', line, fn)"

text \<open>Access through a pointer: undefined when there is no object at the address.\<close>

definition session_at :: "nat \<Rightarrow> ('a hub_scheme, ws_session) prog" where
  "session_at i = seq (get (\<lambda>s. hub_ws s i)) (\<lambda>w. case w of
      None \<Rightarrow> throw (Undefined ''dangling WebSocketSession pointer'')
    | Some w \<Rightarrow> ret w)"

definition set_session :: "nat \<Rightarrow> ws_session \<Rightarrow> ('a hub_scheme, unit) prog" where
  "set_session i w = modify (\<lambda>s. s\<lparr>hub_ws := (hub_ws s)(i \<mapsto> w)\<rparr>)"

section \<open>SharedState\<close>

definition ss_join :: "nat \<Rightarrow> ('a hub_scheme, unit) prog" where
  "ss_join i = modify (\<lambda>s. s\<lparr>hub_sessions := insert i (hub_sessions s)\<rparr>)"

definition ss_leave :: "nat \<Rightarrow> ('a hub_scheme, unit) prog" where
  "ss_leave i = modify (\<lambda>s. s\<lparr>hub_sessions := hub_sessions s - {i}\<rparr>)"

section \<open>WebSocketSession\<close>

definition new_WebSocketSession :: "nat \<Rightarrow> ('a hub_scheme, unit) prog" where
  "new_WebSocketSession i = modify (\<lambda>s. s\<lparr>
     hub_ws := (hub_ws s)(i \<mapsto> \<lparr>ws_alive = True, ws_gen = hub_gen s, ws_buffer = [], ws_queue = [], ws_posted = [],
       ws_accepts = 0, ws_reads = 0, ws_writes = [], ws_sent = [], ws_wire = [], ws_failed = False\<rparr>),
     hub_gen := Suc (hub_gen s)\<rparr>)"

text \<open>\<open>run\<close>: the options of the stream are the library's; what counts is that the handshake is started.\<close>

definition ws_run :: "nat \<Rightarrow> ('a hub_scheme, unit) prog" where
  "ws_run i = seq (session_at i) (\<lambda>w. set_session i (w\<lparr>ws_accepts := Suc (ws_accepts w)\<rparr>))"

definition ws_fail ::
  "('j, 'd) lib \<Rightarrow> (error_code \<Rightarrow> string) \<Rightarrow> error_code \<Rightarrow> string \<Rightarrow> ('a sys_scheme, unit) prog" where
  "ws_fail L msg ec op =
     (if ec = Operation_aborted \<or> ec = Ws_closed then ret ()
      else LOG L ERROR (op @ '': '' @ msg ec) (ws_site 21 ''fail''))"

definition ws_async_read :: "nat \<Rightarrow> ('a hub_scheme, unit) prog" where
  "ws_async_read i = seq (session_at i) (\<lambda>w. set_session i (w\<lparr>ws_reads := Suc (ws_reads w)\<rparr>))"

text \<open>\<open>ws_.async_write(net::buffer(*queue_.front()), ...)\<close>; \<open>front\<close> of an empty vector is undefined.\<close>

definition ws_async_write :: "nat \<Rightarrow> ('a hub_scheme, unit) prog" where
  "ws_async_write i = seq (session_at i) (\<lambda>w. case ws_queue w of
      [] \<Rightarrow> throw (Undefined ''front of an empty vector'')
    | ss # _ \<Rightarrow> set_session i (w\<lparr>ws_writes := ws_writes w @ [ss]\<rparr>))"

definition ws_on_accept ::
  "('j, 'd) lib \<Rightarrow> (error_code \<Rightarrow> string) \<Rightarrow> nat \<Rightarrow> error_code \<Rightarrow> ('a hub_scheme, unit) prog" where
  "ws_on_accept L msg i ec =
     (if ec \<noteq> Ok then ws_fail L msg ec ''accept''
      else seq (ss_join i) (\<lambda>_. ws_async_read i))"

definition ws_on_read ::
  "('j, 'd) lib \<Rightarrow> (error_code \<Rightarrow> string) \<Rightarrow> nat \<Rightarrow> error_code \<Rightarrow> ('a hub_scheme, unit) prog" where
  "ws_on_read L msg i ec =
     (if ec \<noteq> Ok then ws_fail L msg ec ''read''
      else seq (session_at i) (\<lambda>w.
           seq (set_session i (w\<lparr>ws_buffer := drop (length (ws_buffer w)) (ws_buffer w)\<rparr>)) (\<lambda>_.
           ws_async_read i)))"

definition ws_send :: "nat \<Rightarrow> string \<Rightarrow> ('a hub_scheme, unit) prog" where
  "ws_send i ss = seq (session_at i) (\<lambda>w.
     set_session i (w\<lparr>ws_posted := ws_posted w @ [ss], ws_sent := ws_sent w @ [ss]\<rparr>))"

definition ws_on_send :: "nat \<Rightarrow> string \<Rightarrow> ('a hub_scheme, unit) prog" where
  "ws_on_send i ss =
     seq (session_at i) (\<lambda>w.
     seq (set_session i (w\<lparr>ws_queue := ws_queue w @ [ss]\<rparr>)) (\<lambda>_.
     if length (ws_queue w @ [ss]) > 1 then ret ()
     else ws_async_write i))"

definition ws_on_write ::
  "('j, 'd) lib \<Rightarrow> (error_code \<Rightarrow> string) \<Rightarrow> nat \<Rightarrow> error_code \<Rightarrow> ('a hub_scheme, unit) prog" where
  "ws_on_write L msg i ec =
     (if ec \<noteq> Ok then ws_fail L msg ec ''write''
      else seq (session_at i) (\<lambda>w. case ws_queue w of
        [] \<Rightarrow> throw (Undefined ''erase from an empty vector'')
      | _ # rest \<Rightarrow>
          seq (set_session i (w\<lparr>ws_queue := rest\<rparr>)) (\<lambda>_.
          if rest \<noteq> [] then ws_async_write i else ret ())))"

text \<open>The destructor, and the memory given back.\<close>

definition delete_WebSocketSession :: "nat \<Rightarrow> ('a hub_scheme, unit) prog" where
  "delete_WebSocketSession i =
     seq (session_at i) (\<lambda>_.
     seq (ss_leave i) (\<lambda>_.
     modify (\<lambda>s. s\<lparr>hub_ws := (hub_ws s)(i := None)\<rparr>)))"

section \<open>Broadcast\<close>

text \<open>
  \<open>SharedState::send\<close>: under the mutex, a weak pointer for each session, in the order in which the set is
  iterated; then, without it, each is locked and the message sent if the object is still alive.
\<close>

primrec weak_from_all :: "nat list \<Rightarrow> ('a hub_scheme, (nat \<times> nat) list) prog" where
  "weak_from_all [] = ret []"
| "weak_from_all (i # is) = seq (session_at i) (\<lambda>w. seq (weak_from_all is) (\<lambda>v. ret ((i, ws_gen w) # v)))"

definition ss_send_begin :: "string \<Rightarrow> nat list \<Rightarrow> ('a hub_scheme, unit) prog" where
  "ss_send_begin message ids = seq (weak_from_all ids) (\<lambda>v.
     modify (\<lambda>s. s\<lparr>hub_senders := hub_senders s @ [(message, v)]\<rparr>))"

definition ss_send_to :: "string \<Rightarrow> nat \<times> nat \<Rightarrow> ('a hub_scheme, unit) prog" where
  "ss_send_to ss p = seq (get (\<lambda>s. hub_ws s (fst p))) (\<lambda>w. case w of
      None \<Rightarrow> ret ()
    | Some w \<Rightarrow> if ws_gen w = snd p \<and> ws_alive w then ws_send (fst p) ss else ret ())"

definition ss_send_next :: "nat \<Rightarrow> ('a hub_scheme, unit) prog" where
  "ss_send_next k = seq (get (\<lambda>s. hub_senders s ! k)) (\<lambda>(ss, v). case v of
      [] \<Rightarrow> ret ()
    | p # rest \<Rightarrow>
        seq (ss_send_to ss p) (\<lambda>_.
        modify (\<lambda>s. s\<lparr>hub_senders := (hub_senders s)[k := (ss, rest)]\<rparr>)))"

section \<open>Steps\<close>

text \<open>
  What can happen next: \<open>HttpSession::on_read\<close> starts a session at a free address; an operation completes,
  with any code, a read with any bytes in the buffer; a posted call is run; a session nobody points to
  dies, and a dead one is destroyed; a broadcast begins or goes on.
\<close>

datatype hub_event =
    Ws_start nat
  | Ws_accepted nat error_code
  | Ws_read nat error_code string
  | Ws_posted nat
  | Ws_written nat error_code
  | Ws_expire nat
  | Ws_destroy nat
  | Send_begin string "nat list"
  | Send_next nat

definition ws_idle :: "ws_session \<Rightarrow> bool" where
  "ws_idle w \<longleftrightarrow> ws_accepts w = 0 \<and> ws_reads w = 0 \<and> ws_writes w = [] \<and> ws_posted w = []"

fun hub_enabled :: "hub_event \<Rightarrow> 'a hub_scheme \<Rightarrow> bool" where
  "hub_enabled (Ws_start i) s = (hub_ws s i = None)"
| "hub_enabled (Ws_accepted i ec) s = (case hub_ws s i of None \<Rightarrow> False | Some w \<Rightarrow> ws_accepts w > 0)"
| "hub_enabled (Ws_read i ec bs) s = (case hub_ws s i of None \<Rightarrow> False | Some w \<Rightarrow> ws_reads w > 0)"
| "hub_enabled (Ws_posted i) s = (case hub_ws s i of None \<Rightarrow> False | Some w \<Rightarrow> ws_posted w \<noteq> [])"
| "hub_enabled (Ws_written i ec) s = (case hub_ws s i of None \<Rightarrow> False | Some w \<Rightarrow> ws_writes w \<noteq> [])"
| "hub_enabled (Ws_expire i) s = (case hub_ws s i of None \<Rightarrow> False | Some w \<Rightarrow> ws_alive w \<and> ws_idle w)"
| "hub_enabled (Ws_destroy i) s = (case hub_ws s i of None \<Rightarrow> False | Some w \<Rightarrow> \<not> ws_alive w)"
| "hub_enabled (Send_begin m ids) s = (distinct ids \<and> set ids = hub_sessions s)"
| "hub_enabled (Send_next k) s = (k < length (hub_senders s))"

definition on_session :: "nat \<Rightarrow> (ws_session \<Rightarrow> ws_session) \<Rightarrow> ('a hub_scheme, unit) prog" where
  "on_session i f = seq (session_at i) (\<lambda>w. set_session i (f w))"

fun hub_step :: "('j, 'd) lib \<Rightarrow> (error_code \<Rightarrow> string) \<Rightarrow> hub_event \<Rightarrow> ('a hub_scheme, unit) prog" where
  "hub_step L msg (Ws_start i) = seq (new_WebSocketSession i) (\<lambda>_. ws_run i)"
| "hub_step L msg (Ws_accepted i ec) =
     seq (on_session i (\<lambda>w. w\<lparr>ws_accepts := ws_accepts w - 1\<rparr>)) (\<lambda>_. ws_on_accept L msg i ec)"
| "hub_step L msg (Ws_read i ec bs) =
     seq (on_session i (\<lambda>w. w\<lparr>ws_reads := ws_reads w - 1, ws_buffer := ws_buffer w @ bs\<rparr>)) (\<lambda>_. ws_on_read L msg i ec)"
| "hub_step L msg (Ws_posted i) =
     seq (session_at i) (\<lambda>w. case ws_posted w of
       [] \<Rightarrow> ret ()
     | ss # rest \<Rightarrow> seq (set_session i (w\<lparr>ws_posted := rest\<rparr>)) (\<lambda>_. ws_on_send i ss))"
| "hub_step L msg (Ws_written i ec) =
     seq (on_session i (\<lambda>w. if ec = Ok then w\<lparr>ws_wire := ws_wire w @ take 1 (ws_writes w), ws_writes := tl (ws_writes w)\<rparr>
       else w\<lparr>ws_failed := True, ws_writes := tl (ws_writes w)\<rparr>)) (\<lambda>_. ws_on_write L msg i ec)"
| "hub_step L msg (Ws_expire i) = on_session i (\<lambda>w. w\<lparr>ws_alive := False\<rparr>)"
| "hub_step L msg (Ws_destroy i) = delete_WebSocketSession i"
| "hub_step L msg (Send_begin m ids) = ss_send_begin m ids"
| "hub_step L msg (Send_next k) = ss_send_next k"

text \<open>A run of events, each possible where it happens; a program that throws ends it.\<close>

inductive hub_reach :: "('j, 'd) lib \<Rightarrow> (error_code \<Rightarrow> string) \<Rightarrow> 'a hub_scheme \<Rightarrow> 'a hub_scheme \<Rightarrow> bool"
  for L msg s where
  start: "hub_reach L msg s s"
| step: "hub_reach L msg s t \<Longrightarrow> hub_enabled ev t \<Longrightarrow> hub_step L msg ev t = (r, u) \<Longrightarrow> hub_reach L msg s u"

definition new_hub :: "'a hub_scheme \<Rightarrow> bool" where
  "new_hub s \<longleftrightarrow> hub_sessions s = {} \<and> (\<forall>i. hub_ws s i = None) \<and> hub_senders s = []"

section \<open>Invariants\<close>

text \<open>
  Of one session: what was sent is on the wire, in the queue or posted, in that order; at most one write
  is outstanding, of the front of the queue, and none only if the queue is empty or a write has
  failed; the handshake and then one read; nothing outstanding on a dead session.
\<close>

definition ws_inv :: "ws_session \<Rightarrow> bool" where
  "ws_inv w \<longleftrightarrow> ws_sent w = ws_wire w @ ws_queue w @ ws_posted w \<and>
     ws_writes w = (if ws_failed w then [] else take 1 (ws_queue w)) \<and>
     (ws_failed w \<longrightarrow> ws_queue w \<noteq> []) \<and> ws_accepts w + ws_reads w \<le> 1 \<and>
     (ws_accepts w + ws_reads w > 0 \<longrightarrow> ws_buffer w = []) \<and>
     (\<not> ws_alive w \<longrightarrow> ws_idle w)"

text \<open>
  Of all: the set holds only objects that exist, and those have finished their handshake; every session
  that is being read is in it.
\<close>

definition hub_inv :: "'a hub_scheme \<Rightarrow> bool" where
  "hub_inv s \<longleftrightarrow>
     (\<forall>i \<in> hub_sessions s. \<exists>w. hub_ws s i = Some w \<and> ws_accepts w = 0) \<and>
     (\<forall>i w. hub_ws s i = Some w \<longrightarrow> ws_inv w \<and> ws_gen w < hub_gen s \<and> (ws_reads w > 0 \<longrightarrow> i \<in> hub_sessions s))"

lemmas ws_handlers = ws_on_accept_def ws_on_read_def ws_on_send_def ws_on_write_def ws_async_read_def ws_async_write_def
  ws_run_def new_WebSocketSession_def ws_send_def delete_WebSocketSession_def on_session_def session_at_def set_session_def
  ss_join_def ss_leave_def

lemma hub_inv_log: "hub_inv (s\<lparr>clk_pos := n, log_instance := i, log_stderr := e\<rparr>) = hub_inv s"
  by (simp add: hub_inv_def)

lemma hub_inv_senders: "hub_inv (s\<lparr>hub_senders := v\<rparr>) = hub_inv s"
  by (simp add: hub_inv_def)

text \<open>Changing one session that is there.\<close>

lemma hub_inv_set:
  assumes "hub_inv s" and "hub_ws s i = Some w" and "ws_inv v" and "ws_gen v = ws_gen w" and "ws_accepts v \<le> ws_accepts w"
    and "ws_reads v > 0 \<Longrightarrow> ws_reads w > 0 \<or> i \<in> J" and "\<And>k. k \<in> J \<Longrightarrow> k = i \<and> ws_accepts v = 0"
  shows "hub_inv (s\<lparr>hub_ws := (hub_ws s)(i \<mapsto> v), hub_sessions := J \<union> hub_sessions s\<rparr>)"
  using assms by (auto simp: hub_inv_def dest: bspec)

lemma hub_inv_at: "hub_inv s \<Longrightarrow> hub_ws s i = Some w \<Longrightarrow> ws_inv w"
  by (simp add: hub_inv_def)

lemma wp_session_case [wp_rules]:
  "hub_ws s i = Some w \<Longrightarrow> wp (session_at i) Q s = Q (Inr w) s"
  by (simp add: session_at_def wp_rules)

lemma wp_ws_fail:
  assumes "\<And>r n j e. (log_total L \<Longrightarrow> r = Inr ()) \<Longrightarrow> Q r (s\<lparr>clk_pos := n, log_instance := j, log_stderr := e\<rparr>)"
  shows "wp (ws_fail L msg ec op) Q s"
proof -
  have "Q (Inr ()) s" using assms [where r = "Inr ()" and n = "clk_pos s" and j = "log_instance s" and e = "log_stderr s"] by simp
  with assms show ?thesis by (auto simp: ws_fail_def wp_ret intro!: wp_LOG)
qed

lemma hub_updates [simp]: "s\<lparr>hub_sessions := x, hub_ws := y\<rparr> = s\<lparr>hub_ws := y, hub_sessions := x\<rparr>"
  by (cases s) simp

lemma ws_updates [simp]: "w\<lparr>ws_writes := x, ws_queue := y\<rparr> = w\<lparr>ws_queue := y, ws_writes := x\<rparr>"
  by (cases w) simp

text \<open>What each event does to the session it concerns.\<close>

definition ws_after :: "hub_event \<Rightarrow> ws_session \<Rightarrow> ws_session" where
  "ws_after ev w = (case ev of
      Ws_accepted i ec \<Rightarrow>
        if ec = Ok then w\<lparr>ws_accepts := ws_accepts w - 1, ws_reads := Suc (ws_reads w)\<rparr> else w\<lparr>ws_accepts := ws_accepts w - 1\<rparr>
    | Ws_read i ec bs \<Rightarrow>
        if ec = Ok then w\<lparr>ws_buffer := []\<rparr> else w\<lparr>ws_reads := ws_reads w - 1, ws_buffer := ws_buffer w @ bs\<rparr>
    | Ws_posted i \<Rightarrow>
        w\<lparr>ws_posted := tl (ws_posted w), ws_queue := ws_queue w @ take 1 (ws_posted w),
          ws_writes := ws_writes w @ (if ws_queue w = [] then take 1 (ws_posted w) else [])\<rparr>
    | Ws_written i ec \<Rightarrow>
        if ec = Ok then w\<lparr>ws_wire := ws_wire w @ take 1 (ws_writes w), ws_queue := tl (ws_queue w), ws_writes := take 1 (tl (ws_queue w))\<rparr>
        else w\<lparr>ws_failed := True, ws_writes := tl (ws_writes w)\<rparr>
    | Ws_expire i \<Rightarrow> w\<lparr>ws_alive := False\<rparr>
    | _ \<Rightarrow> w)"

fun event_at :: "hub_event \<Rightarrow> nat option" where
  "event_at (Ws_accepted i ec) = Some i"
| "event_at (Ws_read i ec bs) = Some i"
| "event_at (Ws_posted i) = Some i"
| "event_at (Ws_written i ec) = Some i"
| "event_at (Ws_expire i) = Some i"
| "event_at _ = None"

lemma ws_after_inv:
  assumes "hub_enabled ev s" and "event_at ev = Some i" and "hub_ws s i = Some w" and "ws_inv w"
  shows "ws_inv (ws_after ev w)"
proof (cases "ws_writes w = []")
  case True
  then show ?thesis
    using assms by (cases ev) (auto simp: ws_inv_def ws_after_def ws_idle_def neq_Nil_conv split: if_splits)
next
  case False
  with assms(4) obtain q qs where "ws_queue w = q # qs" "ws_writes w = [q]" "\<not> ws_failed w"
    by (cases "ws_queue w") (auto simp: ws_inv_def split: if_splits)
  with assms show ?thesis
    by (cases ev) (auto simp: ws_inv_def ws_after_def ws_idle_def neq_Nil_conv)
qed

lemma ws_after_keeps [simp]: "ws_gen (ws_after ev w) = ws_gen w" "ws_accepts (ws_after ev w) \<le> ws_accepts w"
  by (simp_all add: ws_after_def split: hub_event.split)

definition joins :: "hub_event \<Rightarrow> nat set" where
  "joins ev = (case ev of Ws_accepted i ec \<Rightarrow> if ec = Ok then {i} else {} | _ \<Rightarrow> {})"

text \<open>The handler of an event on a session, up to what logging changes.\<close>

lemma event_on_session:
  assumes "hub_enabled ev s" and "event_at ev = Some i" and "hub_ws s i = Some w" and "ws_inv w"
    and "\<And>r n j e. (log_total L \<Longrightarrow> r = Inr ()) \<Longrightarrow>
      Q r (s\<lparr>hub_ws := (hub_ws s)(i \<mapsto> ws_after ev w), hub_sessions := joins ev \<union> hub_sessions s,
        clk_pos := n, log_instance := j, log_stderr := e\<rparr>)"
  shows "wp (hub_step L msg ev) Q s"
proof -
  let ?t = "s\<lparr>hub_ws := (hub_ws s)(i \<mapsto> ws_after ev w), hub_sessions := joins ev \<union> hub_sessions s\<rparr>"
  have quiet: "Q (Inr ()) ?t"
    using assms(5) [where r = "Inr ()" and n = "clk_pos s" and j = "log_instance s" and e = "log_stderr s"] by simp
  show ?thesis
  proof (cases ev)
    case (Ws_accepted k ec)
    with assms quiet show ?thesis
      by (auto simp: wp_rules ws_handlers ws_after_def joins_def intro!: wp_ws_fail)
  next
    case (Ws_read k ec bs)
    with assms quiet show ?thesis
      by (auto simp: wp_rules ws_handlers ws_after_def joins_def intro!: wp_ws_fail)
  next
    case (Ws_posted k)
    with assms quiet show ?thesis
      by (cases "ws_queue w"; cases "ws_posted w") (auto simp: wp_rules ws_handlers ws_after_def joins_def)
  next
    case (Ws_written k ec)
    with assms(1-4) obtain q qs where "ws_queue w = q # qs" "ws_writes w = [q]"
      by (cases "ws_queue w") (auto simp: ws_inv_def split: if_splits)
    with Ws_written assms quiet show ?thesis
      by (cases qs) (auto simp: wp_rules ws_handlers ws_after_def joins_def intro!: wp_ws_fail)
  next
    case (Ws_expire k)
    with assms quiet show ?thesis
      by (auto simp: wp_rules ws_handlers ws_after_def joins_def)
  qed (use assms(2) in simp_all)
qed

lemma weak_from_all_present:
  "\<forall>i \<in> set ids. hub_ws s i \<noteq> None \<Longrightarrow> weak_from_all ids s = (Inr (map (\<lambda>i. (i, ws_gen (the (hub_ws s i)))) ids), s)"
  by (induction ids) (auto simp: session_at_def prog_defs)

text \<open>A message reaches a session that is alive under the generation of the weak pointer.\<close>

definition ws_receive :: "string \<Rightarrow> ws_session \<Rightarrow> ws_session" where
  "ws_receive ss w = w\<lparr>ws_posted := ws_posted w @ [ss], ws_sent := ws_sent w @ [ss]\<rparr>"

lemma ss_send_to_run:
  "ss_send_to ss p s = (Inr (), s\<lparr>hub_ws := (case hub_ws s (fst p) of
      None \<Rightarrow> hub_ws s
    | Some w \<Rightarrow> if ws_gen w = snd p \<and> ws_alive w then (hub_ws s)(fst p \<mapsto> ws_receive ss w) else hub_ws s)\<rparr>)"
  by (auto simp: ss_send_to_def ws_send_def session_at_def set_session_def ws_receive_def prog_defs split: option.split)

lemma ws_receive_inv: "ws_inv w \<Longrightarrow> ws_alive w \<Longrightarrow> ws_inv (ws_receive ss w)"
  by (simp add: ws_inv_def ws_receive_def)

lemma send_to_inv:
  assumes "hub_inv s"
  shows "\<exists>t. ss_send_to ss p s = (Inr (), t) \<and> hub_inv t \<and> hub_senders t = hub_senders s"
proof (cases "hub_ws s (fst p)")
  case None
  with assms show ?thesis by (simp add: ss_send_to_run)
next
  case (Some w)
  note set = hub_inv_set [OF assms Some, of "ws_receive ss w" "{}"] ws_receive_inv [OF hub_inv_at [OF assms Some]]
  show ?thesis
  proof (cases "ws_gen w = snd p \<and> ws_alive w")
    case True
    with set Some show ?thesis by (simp add: ss_send_to_run) (simp add: ws_receive_def)
  next
    case False
    then have "ss_send_to ss p s = (Inr (), s)" using Some by (auto simp: ss_send_to_run)
    with assms show ?thesis by blast
  qed
qed

text \<open>The two steps of a broadcast.\<close>

lemma wp_send_begin:
  assumes "hub_inv s" and "set ids = hub_sessions s" and "\<And>v. Q (Inr ()) (s\<lparr>hub_senders := v\<rparr>)"
  shows "wp (ss_send_begin m ids) Q s"
proof -
  have "\<forall>i \<in> set ids. hub_ws s i \<noteq> None" using assms(1,2) by (auto simp: hub_inv_def)
  from weak_from_all_present [OF this] assms(3) show ?thesis by (simp add: wp_def ss_send_begin_def seq_def modify_def)
qed

lemma wp_send_next:
  assumes "Q (Inr ()) s" and "\<And>ss p v. Q (Inr ()) ((snd (ss_send_to ss p s))\<lparr>hub_senders := v\<rparr>)"
  shows "wp (ss_send_next k) Q s"
proof -
  obtain ss v where k: "hub_senders s ! k = (ss, v)" by fastforce
  show ?thesis
  proof (cases v)
    case Nil
    with assms(1) k show ?thesis by (simp add: wp_def ss_send_next_def prog_defs)
  next
    case (Cons p rest)
    with k assms(2) [where ss = ss and p = p] show ?thesis
      by (simp add: wp_def ss_send_next_def seq_def get_def modify_def ss_send_to_run)
  qed
qed

lemma hub_step_inv:
  assumes "hub_inv s" and "hub_enabled ev s"
  shows "wp (hub_step L msg ev) (\<lambda>r t. hub_inv t \<and> (log_total L \<longrightarrow> r = Inr ())) s"
proof (cases "event_at ev")
  case (Some i)
  with assms(2) obtain w where w: "hub_ws s i = Some w" by (cases ev) (auto split: option.splits)
  note inv = hub_inv_at [OF assms(1) w]
  have "ws_accepts (ws_after ev w) = 0 \<and> k = i" if "k \<in> joins ev" for k
    using that Some inv by (cases ev) (auto simp: joins_def ws_after_def ws_inv_def split: if_splits)
  moreover have "ws_reads w > 0 \<or> i \<in> joins ev" if "ws_reads (ws_after ev w) > 0"
    using that Some by (cases ev) (auto simp: joins_def ws_after_def split: if_splits)
  ultimately have "hub_inv (s\<lparr>hub_ws := (hub_ws s)(i \<mapsto> ws_after ev w), hub_sessions := joins ev \<union> hub_sessions s\<rparr>)"
    by (intro hub_inv_set [OF assms(1) w]) (auto simp: ws_after_inv [OF assms(2) Some w inv])
  then show ?thesis
    by (intro event_on_session [OF assms(2) Some w inv]) (simp add: hub_inv_def)
next
  case None
  show ?thesis
  proof (cases ev)
    case (Ws_start i)
    with assms show ?thesis
      by (auto simp: wp_rules ws_handlers hub_inv_def ws_inv_def less_Suc_eq dest: bspec)
  next
    case (Ws_destroy i)
    with assms obtain w where "hub_ws s i = Some w" by (auto split: option.splits)
    with Ws_destroy assms show ?thesis
      by (auto simp: wp_rules ws_handlers hub_inv_def)
  next
    case (Send_begin m ids)
    with assms show ?thesis by (auto intro!: wp_send_begin simp: hub_inv_senders)
  next
    case (Send_next k)
    have "hub_inv ((snd (ss_send_to ss p s))\<lparr>hub_senders := v\<rparr>)" for ss p v
      using send_to_inv [OF assms(1), of ss p] by (auto simp: hub_inv_senders)
    with Send_next assms(1) show ?thesis by (auto intro!: wp_send_next)
  qed (use None in simp_all)
qed

lemma hub_reach_inv: "hub_reach L msg s t \<Longrightarrow> hub_inv s \<Longrightarrow> hub_inv t"
proof (induction rule: hub_reach.induct)
  case (step t ev r u)
  with hub_step_inv [of t ev L msg] show ?case by (simp add: wp_def)
qed

lemma new_hub_inv: "new_hub s \<Longrightarrow> hub_inv s"
  by (simp add: new_hub_def hub_inv_def)

lemma hub_reach_new: "new_hub s \<Longrightarrow> hub_reach L msg s t \<Longrightarrow> hub_inv t"
  using hub_reach_inv new_hub_inv by blast

section \<open>Runs\<close>

text \<open>The events one after the other, each possible and ending normally.\<close>

fun hub_run :: "('j, 'd) lib \<Rightarrow> (error_code \<Rightarrow> string) \<Rightarrow> hub_event list \<Rightarrow> 'a hub_scheme \<Rightarrow> 'a hub_scheme option" where
  "hub_run L msg [] s = Some s"
| "hub_run L msg (ev # evs) s =
     (if hub_enabled ev s then (case hub_step L msg ev s of
        (Inl e, t) \<Rightarrow> None
      | (Inr u, t) \<Rightarrow> hub_run L msg evs t)
      else None)"

lemma hub_run_append: "hub_run L msg (xs @ ys) s = Option.bind (hub_run L msg xs s) (hub_run L msg ys)"
  by (induction xs arbitrary: s) (auto split: prod.split sum.split)

abbreviation at_session :: "nat \<Rightarrow> ws_session \<Rightarrow> 'a hub_scheme \<Rightarrow> 'a hub_scheme" where
  "at_session i w s \<equiv> s\<lparr>hub_ws := (hub_ws s)(i \<mapsto> w)\<rparr>"

lemma run_posted:
  "ws_inv w \<Longrightarrow> \<not> ws_failed w \<Longrightarrow>
   hub_run L msg (replicate (length (ws_posted w)) (Ws_posted i)) (at_session i w s) =
   Some (at_session i (w\<lparr>ws_queue := ws_queue w @ ws_posted w, ws_posted := [], ws_writes := take 1 (ws_queue w @ ws_posted w)\<rparr>) s)"
proof (induction "ws_posted w" arbitrary: w)
  case Nil
  then have "w\<lparr>ws_queue := ws_queue w @ ws_posted w, ws_posted := [], ws_writes := take 1 (ws_queue w @ ws_posted w)\<rparr> = w"
    by (simp add: ws_inv_def)
  with Nil show ?case by simp
next
  case (Cons ss rest)
  let ?v = "w\<lparr>ws_posted := rest, ws_queue := ws_queue w @ [ss], ws_writes := take 1 (ws_queue w @ [ss])\<rparr>"
  have w: "ws_posted w = ss # rest" using Cons.hyps(2) by simp
  have "hub_step L msg (Ws_posted i) (at_session i w s) = (Inr (), at_session i ?v s)"
    using Cons.prems w
    by (cases w; cases "ws_queue w") (simp_all add: ws_handlers prog_defs ws_inv_def)
  moreover have "ws_inv ?v" "\<not> ws_failed ?v" using Cons.prems w by (simp_all add: ws_inv_def ws_idle_def)
  ultimately show ?case
    using Cons.hyps(1) [of ?v] w by simp
qed

lemma run_written:
  "ws_inv w \<Longrightarrow> \<not> ws_failed w \<Longrightarrow>
   hub_run L msg (replicate (length (ws_queue w)) (Ws_written i Ok)) (at_session i w s) =
   Some (at_session i (w\<lparr>ws_wire := ws_wire w @ ws_queue w, ws_queue := [], ws_writes := []\<rparr>) s)"
proof (induction "ws_queue w" arbitrary: w)
  case Nil
  then have "w\<lparr>ws_wire := ws_wire w @ ws_queue w, ws_queue := [], ws_writes := []\<rparr> = w"
    by (simp add: ws_inv_def)
  with Nil show ?case by simp
next
  case (Cons q rest)
  let ?v = "w\<lparr>ws_wire := ws_wire w @ [q], ws_queue := rest, ws_writes := take 1 rest\<rparr>"
  have w: "ws_queue w = q # rest" "ws_writes w = [q]"
    using Cons.hyps(2) [symmetric] Cons.prems by (simp_all add: ws_inv_def)
  have "hub_step L msg (Ws_written i Ok) (at_session i w s) = (Inr (), at_session i ?v s)"
    using w by (cases rest) (simp_all add: ws_handlers prog_defs)
  moreover have "ws_inv ?v" "\<not> ws_failed ?v" using Cons.prems w by (auto simp: ws_inv_def ws_idle_def)
  ultimately show ?case
    using Cons.hyps(1) [of ?v] w by simp
qed

text \<open>A broadcast that is not disturbed.\<close>

definition receive_all :: "string \<Rightarrow> nat set \<Rightarrow> (nat \<Rightarrow> ws_session option) \<Rightarrow> nat \<Rightarrow> ws_session option" where
  "receive_all m S f i = (if i \<in> S then map_option (\<lambda>w. if ws_alive w then ws_receive m w else w) (f i) else f i)"

lemma run_sends:
  assumes "distinct ids" and "\<forall>i \<in> set ids. \<exists>w. hub_ws s i = Some w \<and> ws_gen w = g i"
    and "k < length (hub_senders s)" and "hub_senders s ! k = (m, map (\<lambda>i. (i, g i)) ids)"
  shows "hub_run L msg (replicate (length ids) (Send_next k)) s =
    Some (s\<lparr>hub_ws := receive_all m (set ids) (hub_ws s), hub_senders := (hub_senders s)[k := (m, [])]\<rparr>)"
  using assms
proof (induction ids arbitrary: s)
  case Nil
  then have "(hub_senders s)[k := (m, [])] = hub_senders s" by (metis list.simps(8) list_update_id)
  then show ?case by (simp add: receive_all_def)
next
  case (Cons i ids)
  then obtain w where w: "hub_ws s i = Some w" "ws_gen w = g i" by auto
  let ?t = "s\<lparr>hub_ws := receive_all m {i} (hub_ws s), hub_senders := (hub_senders s)[k := (m, map (\<lambda>i. (i, g i)) ids)]\<rparr>"
  have "receive_all m {i} (hub_ws s) = (if ws_alive w then (hub_ws s)(i \<mapsto> ws_receive m w) else hub_ws s)"
    using w by (auto simp: receive_all_def fun_eq_iff)
  with w have one: "ss_send_to m (i, g i) s = (Inr (), s\<lparr>hub_ws := receive_all m {i} (hub_ws s)\<rparr>)"
    by (simp add: ss_send_to_run)
  have step: "hub_step L msg (Send_next k) s = (Inr (), ?t)"
    using Cons.prems(4) one by (simp add: ss_send_next_def seq_def get_def modify_def)
  have rest: "hub_run L msg (replicate (length ids) (Send_next k)) ?t =
      Some (?t\<lparr>hub_ws := receive_all m (set ids) (hub_ws ?t), hub_senders := (hub_senders ?t)[k := (m, [])]\<rparr>)"
    by (rule Cons.IH) (use Cons.prems in \<open>auto simp: receive_all_def\<close>)
  have all: "receive_all m (set ids) (receive_all m {i} (hub_ws s)) = receive_all m (insert i (set ids)) (hub_ws s)"
    using Cons.prems(1) by (auto simp: receive_all_def fun_eq_iff)
  from step rest all Cons.prems(3) show ?case by simp
qed

lemma broadcast_all:
  assumes "distinct ids" and "\<forall>i \<in> set ids. hub_ws s i \<noteq> None" and "set ids = hub_sessions s"
  shows "hub_run L msg (Send_begin m ids # replicate (length ids) (Send_next (length (hub_senders s)))) s =
    Some (s\<lparr>hub_ws := receive_all m (set ids) (hub_ws s), hub_senders := hub_senders s @ [(m, [])]\<rparr>)"
proof -
  let ?g = "\<lambda>i. ws_gen (the (hub_ws s i))"
  let ?t = "s\<lparr>hub_senders := hub_senders s @ [(m, map (\<lambda>i. (i, ?g i)) ids)]\<rparr>"
  have "hub_step L msg (Send_begin m ids) s = (Inr (), ?t)"
    using weak_from_all_present [OF assms(2)] by (simp add: ss_send_begin_def seq_def modify_def)
  moreover have "hub_run L msg (replicate (length ids) (Send_next (length (hub_senders s)))) ?t =
      Some (?t\<lparr>hub_ws := receive_all m (set ids) (hub_ws ?t), hub_senders := (hub_senders ?t)[length (hub_senders s) := (m, [])]\<rparr>)"
    by (rule run_sends [where g = ?g]) (use assms in auto)
  ultimately show ?thesis using assms(1,3) by simp
qed

section \<open>After a failed write\<close>

text \<open>Against the session \<open>w\<close> of address \<open>i\<close>: what may have become of it.\<close>

definition mute_after :: "ws_session \<Rightarrow> ws_session \<Rightarrow> bool" where
  "mute_after w v \<longleftrightarrow> (ws_gen v = ws_gen w \<longrightarrow>
     ws_failed v \<and> ws_wire v = ws_wire w \<and> ws_writes v = [] \<and> (\<exists>more. ws_queue v = ws_queue w @ more))"

definition muted :: "ws_session \<Rightarrow> nat \<Rightarrow> 'a hub_scheme \<Rightarrow> bool" where
  "muted w i s \<longleftrightarrow> ws_gen w < hub_gen s \<and> (\<forall>v. hub_ws s i = Some v \<longrightarrow> mute_after w v)"

lemma muted_set: "muted w i s \<Longrightarrow> (k = i \<Longrightarrow> mute_after w v) \<Longrightarrow> muted w i (at_session k v s)"
  by (auto simp: muted_def)

lemma mute_after_event:
  assumes "mute_after w v" and "hub_enabled ev s" and "event_at ev = Some i" and "hub_ws s i = Some v" and "ws_inv v"
  shows "mute_after w (ws_after ev v)"
proof (cases "ws_gen v = ws_gen w")
  case True
  with assms show ?thesis
    by (cases ev) (auto simp: mute_after_def ws_after_def ws_inv_def)
qed (simp add: mute_after_def)

lemma muted_send_to: "muted w i s \<Longrightarrow> muted w i (snd (ss_send_to ss p s))"
  by (auto simp: ss_send_to_run ws_receive_def muted_def mute_after_def split: option.split)

lemma muted_step:
  assumes m: "muted w i s" and inv: "hub_inv s" and en: "hub_enabled ev s"
  shows "wp (hub_step L msg ev) (\<lambda>r t. muted w i t) s"
proof (cases "event_at ev")
  case (Some k)
  with en obtain v where v: "hub_ws s k = Some v" by (cases ev) (auto split: option.splits)
  note vi = hub_inv_at [OF inv v]
  have "k = i \<Longrightarrow> mute_after w (ws_after ev v)"
    using m v mute_after_event [OF _ en Some v vi] by (simp add: muted_def)
  with m have "muted w i (at_session k (ws_after ev v) s)" by (rule muted_set)
  then show ?thesis
    by (intro event_on_session [OF en Some v vi]) (simp add: muted_def)
next
  case None
  show ?thesis
  proof (cases ev)
    case (Ws_start k)
    with m show ?thesis
      by (auto simp: wp_rules ws_handlers muted_def mute_after_def)
  next
    case (Ws_destroy k)
    with en obtain v where "hub_ws s k = Some v" by (auto split: option.splits)
    with Ws_destroy m show ?thesis
      by (auto simp: wp_rules ws_handlers muted_def)
  next
    case (Send_begin msg' ids)
    with en inv m show ?thesis by (auto intro!: wp_send_begin simp: muted_def)
  next
    case (Send_next k)
    have "muted w i ((snd (ss_send_to ss p s))\<lparr>hub_senders := v\<rparr>)" for ss p v
      using muted_send_to [OF m, of ss p] by (simp add: muted_def)
    with Send_next m show ?thesis by (auto intro!: wp_send_next)
  qed (use None in simp_all)
qed

lemma muted_reach: "hub_reach L msg s t \<Longrightarrow> muted w i s \<Longrightarrow> hub_inv s \<Longrightarrow> muted w i t"
proof (induction rule: hub_reach.induct)
  case (step t ev r u)
  with muted_step [OF step.IH hub_reach_inv [OF step.hyps(1)] step.hyps(2), of L msg] show ?case by (simp add: wp_def)
qed

section \<open>A run\<close>

lemma hub_run_reach: "hub_run L msg evs s = Some t \<Longrightarrow> hub_reach L msg r s \<Longrightarrow> hub_reach L msg r t"
  by (induction evs arbitrary: s) (auto split: if_splits prod.splits sum.splits intro: hub_reach.step)

text \<open>A process without sessions, then one session that is started, accepted, and sent a message that is being written.\<close>

definition demo_hub :: hub where
  "demo_hub = sys.extend (sys.truncate (demo_db []))
     \<lparr>hub_sessions = {}, hub_ws = (\<lambda>i. None), hub_gen = 0, hub_senders = []\<rparr>"

definition demo_session_sent :: ws_session where
  "demo_session_sent = \<lparr>ws_alive = True, ws_gen = 0, ws_buffer = [], ws_queue = [''a''], ws_posted = [''b''],
     ws_accepts = 0, ws_reads = 1, ws_writes = [''a''], ws_sent = [''a'', ''b''], ws_wire = [], ws_failed = False\<rparr>"

definition demo_hub_sent :: hub where
  "demo_hub_sent = demo_hub\<lparr>hub_sessions := {7}, hub_ws := [7 \<mapsto> demo_session_sent], hub_gen := 1,
     hub_senders := [(''a'', []), (''b'', [])]\<rparr>"

lemma demo_hub_new: "new_hub demo_hub"
  by (simp add: new_hub_def demo_hub_def sys.extend_def)

lemma demo_hub_run:
  "hub_run demo_lib (\<lambda>ec. []) [Ws_start 7, Ws_accepted 7 Ok, Send_begin ''a'' [7], Send_next 0, Send_begin ''b'' [7],
     Ws_posted 7, Send_next 1] demo_hub = Some demo_hub_sent"
  by (simp add: demo_hub_new [unfolded new_hub_def] ws_handlers prog_defs ss_send_begin_def ss_send_next_def ss_send_to_run
      ws_receive_def demo_hub_sent_def demo_session_sent_def) (simp add: demo_hub_def sys.extend_def fun_eq_iff)

lemma demo_hub_reach: "hub_reach demo_lib (\<lambda>ec. []) demo_hub demo_hub_sent"
  by (rule hub_run_reach [OF demo_hub_run hub_reach.start])

definition demo_hub_failed :: hub where
  "demo_hub_failed = at_session 7 (demo_session_sent\<lparr>ws_failed := True, ws_writes := []\<rparr>) demo_hub_sent"

section \<open>Properties\<close>



text \<open>
  C18: Messages leave a session in the order in which they were passed to \<open>send\<close>: what was sent is what has been
  written, then the queue, then what is posted. Never more than one write is outstanding, and it is that of
  the front of the queue; never more than one read, and it starts with an empty buffer.
\<close>

theorem ws_fifo:
  assumes "new_hub s" and "hub_reach L msg s t" and "hub_ws t i = Some w"
  shows "ws_sent w = ws_wire w @ ws_queue w @ ws_posted w \<and>
    ws_writes w = (if ws_failed w then [] else take 1 (ws_queue w)) \<and>
    ws_accepts w + ws_reads w \<le> 1 \<and> (ws_reads w = 1 \<longrightarrow> ws_buffer w = []) \<and>
    (i \<in> hub_sessions t \<longrightarrow> ws_accepts w = 0)"
  using hub_reach_new [OF assms(1,2)] assms(3) by (auto simp: hub_inv_def ws_inv_def)

theorem ws_fifo_witness:
  "ws_sent demo_session_sent = ws_wire demo_session_sent @ ws_queue demo_session_sent @ ws_posted demo_session_sent \<and>
   ws_writes demo_session_sent = [''a'']"
  using ws_fifo [OF demo_hub_new demo_hub_reach, of 7 demo_session_sent]
  by (simp add: demo_hub_sent_def demo_session_sent_def)

text \<open>
  C28: A session whose writes succeed sends everything: once the posted calls have run, as many completions as
  there are messages empty the queue, and all that was sent has been written.
\<close>

theorem ws_drains:
  assumes "new_hub s" and "hub_reach L msg s t" and "hub_ws t i = Some w" and "\<not> ws_failed w"
  shows "\<exists>u v. hub_run L msg (replicate (length (ws_posted w)) (Ws_posted i) @
        replicate (length (ws_queue w) + length (ws_posted w)) (Ws_written i Ok)) t = Some u \<and>
      hub_ws u i = Some v \<and> ws_wire v = ws_sent w \<and> ws_queue v = [] \<and> ws_posted v = [] \<and> ws_writes v = []"
proof -
  have inv: "ws_inv w" using hub_reach_new [OF assms(1,2)] assms(3) by (simp add: hub_inv_def)
  have t: "at_session i w t = t" using assms(3) by (simp add: fun_upd_idem)
  let ?v = "w\<lparr>ws_queue := ws_queue w @ ws_posted w, ws_posted := [], ws_writes := take 1 (ws_queue w @ ws_posted w)\<rparr>"
  have "ws_inv ?v" "\<not> ws_failed ?v" using inv assms(4) by (auto simp: ws_inv_def ws_idle_def)
  from run_written [OF this, of L msg i t] run_posted [OF inv assms(4), of L msg i t]
  show ?thesis
    using inv by (simp add: hub_run_append t ws_inv_def)
qed

theorem ws_drains_witness:
  "\<exists>u v. hub_run demo_lib (\<lambda>ec. []) [Ws_posted 7, Ws_written 7 Ok, Ws_written 7 Ok] demo_hub_sent = Some u \<and>
     hub_ws u 7 = Some v \<and> ws_wire v = [''a'', ''b'']"
proof -
  have w: "hub_ws demo_hub_sent 7 = Some demo_session_sent" by (simp add: demo_hub_sent_def)
  have shape: "ws_posted demo_session_sent = [''b'']" "ws_queue demo_session_sent = [''a'']"
    "ws_sent demo_session_sent = [''a'', ''b'']" "\<not> ws_failed demo_session_sent"
    by (simp_all add: demo_session_sent_def)
  from ws_drains [OF demo_hub_new demo_hub_reach w shape(4)]
  obtain u v where u: "hub_run demo_lib (\<lambda>ec. []) (replicate 1 (Ws_posted 7) @ replicate 2 (Ws_written 7 Ok)) demo_hub_sent = Some u"
    and v: "hub_ws u 7 = Some v" "ws_wire v = [''a'', ''b'']"
    unfolding shape by (auto simp del: hub_run.simps replicate.simps simp add: numeral_2_eq_2)
  have "replicate 1 (Ws_posted 7) @ replicate 2 (Ws_written 7 Ok) = [Ws_posted 7, Ws_written 7 Ok, Ws_written 7 Ok]"
    by (simp add: numeral_2_eq_2)
  with u v show ?thesis by metis
qed

text \<open>
  C31: After a write that failed a session is mute but not gone: whatever happens later, nothing more is
  written by it, the message that failed stays at the front, and every message that still reaches it is
  only queued behind that one. It stays in the set, and so gets every broadcast, as long as its read
  is outstanding.
\<close>

theorem ws_write_error_mutes:
  assumes "new_hub s" and "hub_reach L msg s t" and "hub_ws t i = Some w" and "ws_failed w"
    and "hub_reach L msg t u" and "hub_ws u i = Some v" and "ws_gen v = ws_gen w"
  shows "ws_failed v \<and> ws_wire v = ws_wire w \<and> ws_writes v = [] \<and> (\<exists>more. ws_queue v = ws_queue w @ more) \<and>
    (ws_reads v > 0 \<longrightarrow> i \<in> hub_sessions u)"
proof -
  note inv_t = hub_reach_new [OF assms(1,2)]
  have "ws_reads v > 0 \<longrightarrow> i \<in> hub_sessions u"
    using hub_reach_inv [OF assms(5) inv_t] assms(6) by (simp add: hub_inv_def)
  moreover
  have "muted w i t"
    using inv_t assms(3,4) by (auto simp: muted_def mute_after_def hub_inv_def ws_inv_def)
  from muted_reach [OF assms(5) this inv_t] assms(6,7)
  have "ws_failed v \<and> ws_wire v = ws_wire w \<and> ws_writes v = [] \<and> (\<exists>more. ws_queue v = ws_queue w @ more)"
    by (simp add: muted_def mute_after_def)
  ultimately show ?thesis by blast
qed

theorem ws_write_error_mutes_witness:
  "\<exists>u v more. hub_run demo_lib (\<lambda>ec. []) [Ws_posted 7] demo_hub_failed = Some u \<and> hub_ws u 7 = Some v \<and>
     ws_writes v = [] \<and> ws_wire v = [] \<and> ws_queue v = ''a'' # more"
proof -
  have "hub_run demo_lib (\<lambda>ec. []) [Ws_written 7 Operation_aborted] demo_hub_sent = Some demo_hub_failed"
    by (simp add: demo_hub_failed_def demo_hub_sent_def demo_session_sent_def ws_handlers prog_defs ws_fail_def)
  note failed = hub_run_reach [OF this demo_hub_reach]
  define w where "w = demo_session_sent\<lparr>ws_failed := True, ws_writes := []\<rparr>"
  define v where "v = w\<lparr>ws_posted := [], ws_queue := [''a'', ''b'']\<rparr>"
  have w: "hub_ws demo_hub_failed 7 = Some w" "ws_failed w" "ws_wire w = []" "ws_queue w = [''a'']"
    by (simp_all add: demo_hub_failed_def w_def demo_session_sent_def)
  have run: "hub_run demo_lib (\<lambda>ec. []) [Ws_posted 7] demo_hub_failed = Some (at_session 7 v demo_hub_failed)"
    by (simp add: demo_hub_failed_def v_def w_def demo_session_sent_def ws_handlers prog_defs)
  have "ws_failed v \<and> ws_wire v = ws_wire w \<and> ws_writes v = [] \<and> (\<exists>more. ws_queue v = ws_queue w @ more) \<and>
      (ws_reads v > 0 \<longrightarrow> 7 \<in> hub_sessions (at_session 7 v demo_hub_failed))"
    by (rule ws_write_error_mutes [OF demo_hub_new failed w(1,2) hub_run_reach [OF run hub_reach.start]])
      (simp_all add: v_def)
  with run w show ?thesis by auto
qed

text \<open>
  C32: A broadcast that is not disturbed posts its message once to every session of the set that is
  still alive, and touches no other.
\<close>

theorem ws_broadcast:
  assumes "new_hub s" and "hub_reach L msg s t" and "distinct ids" and "set ids = hub_sessions t"
  shows "\<exists>u. hub_run L msg (Send_begin m ids # replicate (length ids) (Send_next (length (hub_senders t)))) t = Some u \<and>
    hub_sessions u = hub_sessions t \<and>
    (\<forall>i. hub_ws u i = (if i \<in> hub_sessions t
       then map_option (\<lambda>w. if ws_alive w then w\<lparr>ws_posted := ws_posted w @ [m], ws_sent := ws_sent w @ [m]\<rparr> else w) (hub_ws t i)
       else hub_ws t i))"
proof -
  have there: "\<forall>i \<in> set ids. hub_ws t i \<noteq> None"
    using hub_reach_new [OF assms(1,2)] assms(4) by (auto simp: hub_inv_def)
  show ?thesis
    by (intro exI conjI, rule broadcast_all [OF assms(3) there assms(4)])
      (simp_all add: receive_all_def ws_receive_def assms(4) cong: if_cong)
qed

theorem ws_broadcast_witness:
  "\<exists>u. hub_run demo_lib (\<lambda>ec. []) [Send_begin ''c'' [7], Send_next 2] demo_hub_sent = Some u \<and>
     hub_ws u 7 = Some (demo_session_sent\<lparr>ws_posted := [''b'', ''c''], ws_sent := [''a'', ''b'', ''c'']\<rparr>)"
proof -
  have s: "distinct [7]" "set [7] = hub_sessions demo_hub_sent" "length (hub_senders demo_hub_sent) = 2"
    "hub_ws demo_hub_sent 7 = Some demo_session_sent"
    by (simp_all add: demo_hub_sent_def)
  from ws_broadcast [OF demo_hub_new demo_hub_reach s(1,2), of "''c''"]
  obtain u where u: "hub_run demo_lib (\<lambda>ec. []) [Send_begin ''c'' [7], Send_next 2] demo_hub_sent = Some u"
    and v: "\<forall>i. hub_ws u i = (if i \<in> hub_sessions demo_hub_sent
       then map_option (\<lambda>w. if ws_alive w then w\<lparr>ws_posted := ws_posted w @ [''c''], ws_sent := ws_sent w @ [''c'']\<rparr> else w)
         (hub_ws demo_hub_sent i) else hub_ws demo_hub_sent i)"
    unfolding s(3) by (auto simp del: hub_run.simps)
  have "7 \<in> hub_sessions demo_hub_sent" using s(2) by auto
  with v s(4) have "hub_ws u 7 = Some (demo_session_sent\<lparr>ws_posted := [''b'', ''c''], ws_sent := [''a'', ''b'', ''c'']\<rparr>)"
    by (simp add: demo_session_sent_def)
  with u show ?thesis by blast
qed

end
