(* ===== verification/Server.thy ===== *)
theory Server
  imports HttpSession
begin

text \<open>
  \<^verbatim>\<open>src/Network/listener.cc\<close> and the start of the process in \<^verbatim>\<open>app/main.cc\<close>: the endpoint is computed from
  the configuration, the acceptor is opened, bound and told to listen, connections are accepted until
  the first error, and the threads run the event loop until a signal stops it. What the operating
  system answers to the acceptor is the function \<open>net\<close>; accepted sockets are numbers. The loop runs the
  completion handlers of the listener; those of the connections are in the theory \<open>HttpSession\<close>.
\<close>

section \<open>State\<close>

datatype acceptor_call =
    Acc_open string
  | Acc_reuse_address bool
  | Acc_bind string "16 word"
  | Acc_listen

text \<open>
  \<open>sv_calls\<close> is history: what the acceptor was asked, in order. \<open>sv_accepting\<close> counts the outstanding
  accepts, \<open>sv_sessions\<close> lists the sockets of the sessions that were started, \<open>sv_signals\<close> says whether the wait for
  a signal is outstanding, \<open>sv_stopped\<close> whether the loop has been stopped, \<open>sv_threads\<close> counts the threads
  in it.
\<close>

record server = sys +
  sv_calls :: "acceptor_call list"
  sv_accepting :: nat
  sv_sessions :: "nat list"
  sv_stdout :: "string list"
  sv_signals :: bool
  sv_stopped :: bool
  sv_threads :: nat

section \<open>Listener\<close>

definition ls_site :: "int \<Rightarrow> string \<Rightarrow> site" where
  "ls_site line fn = (''src/Network/listener.cc'', line, fn)"

definition ls_fail ::
  "('j, 'd) lib \<Rightarrow> (error_code \<Rightarrow> string) \<Rightarrow> error_code \<Rightarrow> string \<Rightarrow> ('a sys_scheme, unit) prog" where
  "ls_fail L msg ec op =
     (if ec = Operation_aborted then ret ()
      else LOG L ERROR (op @ '': '' @ msg ec) (ls_site 54 ''fail''))"

definition acceptor :: "(acceptor_call \<Rightarrow> error_code) \<Rightarrow> acceptor_call \<Rightarrow> ('a server_scheme, error_code) prog" where
  "acceptor net c = seq (modify (\<lambda>s. s\<lparr>sv_calls := sv_calls s @ [c]\<rparr>)) (\<lambda>_. ret (net c))"

definition new_Listener ::
  "('j, 'd) lib \<Rightarrow> (error_code \<Rightarrow> string) \<Rightarrow> (acceptor_call \<Rightarrow> error_code) \<Rightarrow> string \<Rightarrow> 16 word
     \<Rightarrow> ('a server_scheme, unit) prog" where
  "new_Listener L msg net addr port =
     seq (acceptor net (Acc_open addr)) (\<lambda>ec.
     if ec \<noteq> Ok then ls_fail L msg ec ''open''
     else seq (acceptor net (Acc_reuse_address True)) (\<lambda>ec.
     if ec \<noteq> Ok then ls_fail L msg ec ''set_option''
     else seq (acceptor net (Acc_bind addr port)) (\<lambda>ec.
     if ec \<noteq> Ok then ls_fail L msg ec ''bind''
     else seq (acceptor net Acc_listen) (\<lambda>ec.
     if ec \<noteq> Ok then ls_fail L msg ec ''listen''
     else ret ()))))"

definition async_accept :: "('a server_scheme, unit) prog" where
  "async_accept = modify (\<lambda>s. s\<lparr>sv_accepting := Suc (sv_accepting s)\<rparr>)"

definition ls_run :: "('a server_scheme, unit) prog" where
  "ls_run = async_accept"

definition ls_on_accept ::
  "('j, 'd) lib \<Rightarrow> (error_code \<Rightarrow> string) \<Rightarrow> error_code \<Rightarrow> nat \<Rightarrow> ('a server_scheme, unit) prog" where
  "ls_on_accept L msg ec socket =
     (if ec \<noteq> Ok then ls_fail L msg ec ''accept''
      else seq (modify (\<lambda>s. s\<lparr>sv_sessions := sv_sessions s @ [socket]\<rparr>)) (\<lambda>_. async_accept))"

section \<open>Numbers\<close>

definition is_dec :: "char \<Rightarrow> bool" where
  "is_dec c \<longleftrightarrow> (48 :: nat) \<le> of_char c \<and> (of_char c :: nat) \<le> 57"

fun dec_fold :: "nat \<Rightarrow> string \<Rightarrow> nat" where
  "dec_fold acc [] = acc"
| "dec_fold acc (c # cs) = dec_fold (10 * acc + (of_char c - 48)) cs"

text \<open>
  \<open>std::atoi\<close>: blanks, a sign, digits, and anything after them; no digits is 0. For a value that is not
  an \<open>int\<close> the behaviour is undefined.
\<close>

definition atoi :: "string \<Rightarrow> exn + int" where
  "atoi s =
     (let (neg, s1) = skip_sign (dropWhile is_space s);
          v = int (dec_fold 0 (takeWhile is_dec s1));
          v = (if neg then - v else v)
      in if - (2 ^ 31) \<le> v \<and> v < 2 ^ 31 then Inr v else Inl (Undefined ''atoi out of range''))"

text \<open>\<open>operator<<\<close> of an unsigned number.\<close>

fun decimal :: "nat \<Rightarrow> string" where
  "decimal n = (if n < 10 then [hex_digit n] else decimal (n div 10) @ [hex_digit (n mod 10)])"

declare decimal.simps [simp del]

section \<open>main\<close>

text \<open>\<open>for (auto i = workerThreads - 1; i > 0; --i) v.emplace_back(...)\<close>: the number of threads started.\<close>

function spawn_loop :: "int \<Rightarrow> nat \<Rightarrow> nat" where
  "spawn_loop i n = (if i > 0 then spawn_loop (i - 1) (Suc n) else n)"
  by pat_completeness auto
termination
  by (relation "measure (\<lambda>(i, n). nat i)") auto

declare spawn_loop.simps [simp del]

text \<open>
  \<open>main\<close> from the endpoint to the point where every thread is in \<open>ioContext.run()\<close>; the database object and
  the router are made before (\<open>main_router\<close>). \<open>make_address\<close> is \<open>net::ip::make_address\<close>, which throws for a text
  that is not an address, with the text of the address it makes.
\<close>

definition main_start ::
  "('j, 'd) lib \<Rightarrow> (error_code \<Rightarrow> string) \<Rightarrow> (acceptor_call \<Rightarrow> error_code) \<Rightarrow> (string \<Rightarrow> exn + string)
     \<Rightarrow> ('a server_scheme, unit) prog" where
  "main_start L msg net make_address =
     seq (call (make_address (server_address L))) (\<lambda>serverAddress.
     seq (call (atoi (server_port L))) (\<lambda>port.
     let serverPort = word_of_int port :: 16 word in
     seq (call (atoi ''4'')) (\<lambda>n.
     let workerThreads = max 1 n in
     seq (new_Listener L msg net serverAddress serverPort) (\<lambda>_.
     seq ls_run (\<lambda>_.
     seq (modify (\<lambda>s. s\<lparr>sv_stdout := sv_stdout s @
            [''Server listening on '' @ serverAddress @ '':'' @ decimal (unat serverPort)]\<rparr>)) (\<lambda>_.
     seq (modify (\<lambda>s. s\<lparr>sv_signals := True\<rparr>)) (\<lambda>_.
     modify (\<lambda>s. s\<lparr>sv_threads := Suc (spawn_loop (workerThreads - 1) 0)\<rparr>))))))))"

text \<open>The event loop: an accept completes, or the signal arrives. A stopped loop runs no more handlers.\<close>

datatype server_event = Accepted error_code nat | Signal

fun server_step :: "('j, 'd) lib \<Rightarrow> (error_code \<Rightarrow> string) \<Rightarrow> server_event \<Rightarrow> ('a server_scheme, unit) prog" where
  "server_step L msg (Accepted ec socket) = seq (get (\<lambda>s. \<not> sv_stopped s \<and> sv_accepting s > 0)) (\<lambda>ready.
     if ready then seq (modify (\<lambda>s. s\<lparr>sv_accepting := sv_accepting s - 1\<rparr>)) (\<lambda>_. ls_on_accept L msg ec socket)
     else ret ())"
| "server_step L msg Signal = seq (get (\<lambda>s. \<not> sv_stopped s \<and> sv_signals s)) (\<lambda>ready.
     if ready then modify (\<lambda>s. s\<lparr>sv_signals := False, sv_stopped := True\<rparr>)
     else ret ())"

fun server_run :: "('j, 'd) lib \<Rightarrow> (error_code \<Rightarrow> string) \<Rightarrow> server_event list \<Rightarrow> ('a server_scheme, unit) prog" where
  "server_run L msg [] = ret ()"
| "server_run L msg (ev # evs) = seq (server_step L msg ev) (\<lambda>_. server_run L msg evs)"

section \<open>Lemmas\<close>

lemma wp_ls_fail:
  assumes "\<And>r n j e. (log_total L \<Longrightarrow> r = Inr ()) \<Longrightarrow> Q r (s\<lparr>clk_pos := n, log_instance := j, log_stderr := e\<rparr>)"
  shows "wp (ls_fail L msg ec op) Q s"
proof -
  have "Q (Inr ()) s" using assms [where r = "Inr ()" and n = "clk_pos s" and j = "log_instance s" and e = "log_stderr s"] by simp
  with assms show ?thesis by (auto simp: ls_fail_def wp_ret intro!: wp_LOG)
qed

text \<open>What the constructor asks: the four calls, up to and with the first that fails.\<close>

definition listen_calls :: "string \<Rightarrow> 16 word \<Rightarrow> acceptor_call list" where
  "listen_calls addr port = [Acc_open addr, Acc_reuse_address True, Acc_bind addr port, Acc_listen]"

definition upto_failure :: "(acceptor_call \<Rightarrow> error_code) \<Rightarrow> acceptor_call list \<Rightarrow> acceptor_call list" where
  "upto_failure net cs = takeWhile (\<lambda>c. net c = Ok) cs @ take 1 (dropWhile (\<lambda>c. net c = Ok) cs)"

lemma new_Listener_calls:
  "log_total L \<Longrightarrow> wp (new_Listener L msg net addr port)
     (\<lambda>r t. r = Inr () \<and> sv_calls t = sv_calls s @ upto_failure net (listen_calls addr port) \<and>
        sv_accepting t = sv_accepting s \<and> sv_sessions t = sv_sessions s \<and> sv_stdout t = sv_stdout s \<and>
        sv_signals t = sv_signals s \<and> sv_stopped t = sv_stopped s \<and> sv_threads t = sv_threads s) s"
  unfolding new_Listener_def acceptor_def
  by (auto simp: wp_rules upto_failure_def listen_calls_def intro!: wp_ls_fail)

lemma spawn_loop_eq: "spawn_loop i n = nat i + n"
  by (induction i n rule: spawn_loop.induct) (subst spawn_loop.simps, auto)

lemma atoi_4: "atoi ''4'' = Inr 4"
  by (simp add: atoi_def skip_sign_def is_space_def is_dec_def)

text \<open>The sockets accepted before the first error or the signal, and whether the acceptor is still at work.\<close>

fun accepted :: "server_event list \<Rightarrow> nat list" where
  "accepted [] = []"
| "accepted (Accepted ec socket # evs) = (if ec = Ok then socket # accepted evs else [])"
| "accepted (Signal # evs) = []"

fun still_accepting :: "server_event list \<Rightarrow> bool" where
  "still_accepting [] = True"
| "still_accepting (Accepted ec socket # evs) = (ec = Ok \<and> still_accepting evs)"
| "still_accepting (Signal # evs) = True"

definition server_fields :: "'a server_scheme \<Rightarrow> nat \<Rightarrow> nat list \<Rightarrow> bool \<Rightarrow> bool" where
  "server_fields s n socks stopped \<longleftrightarrow>
     sv_accepting s = n \<and> sv_sessions s = socks \<and> sv_stopped s = stopped \<and> sv_signals s = (\<not> stopped)"

lemma server_step_idle:
  "server_fields s n socks True \<Longrightarrow> server_step L msg ev s = (Inr (), s)"
  "server_fields s 0 socks stopped \<Longrightarrow> server_step L msg (Accepted ec k) s = (Inr (), s)"
  by (cases ev; auto simp: server_fields_def prog_defs)+

lemma server_step_signal:
  "server_fields s n socks False \<Longrightarrow> \<exists>t. server_step L msg Signal s = (Inr (), t) \<and> server_fields t n socks True"
  by (auto simp: server_fields_def prog_defs)

lemma server_step_accept:
  assumes "log_total L" and "server_fields s 1 socks False"
  shows "\<exists>t. server_step L msg (Accepted ec k) s = (Inr (), t) \<and>
    server_fields t (if ec = Ok then 1 else 0) (if ec = Ok then socks @ [k] else socks) False"
proof -
  have "wp (server_step L msg (Accepted ec k)) (\<lambda>r t. r = Inr () \<and>
      server_fields t (if ec = Ok then 1 else 0) (if ec = Ok then socks @ [k] else socks) False) s"
    using assms by (auto simp: wp_rules ls_on_accept_def async_accept_def server_fields_def intro!: wp_ls_fail)
  then show ?thesis by (auto simp: wp_def split: prod.splits)
qed

lemma server_run_stopped: "server_fields s n socks True \<Longrightarrow> server_run L msg evs s = (Inr (), s)"
  by (induction evs) (simp_all add: server_step_idle(1) seq_def ret_def)

lemma server_run_deaf:
  "server_fields s 0 socks False \<Longrightarrow>
   \<exists>t. server_run L msg evs s = (Inr (), t) \<and> server_fields t 0 socks (Signal \<in> set evs)"
proof (induction evs arbitrary: s)
  case Nil
  then show ?case by (simp add: ret_def)
next
  case (Cons ev evs)
  show ?case
  proof (cases ev)
    case (Accepted ec k)
    with Cons server_step_idle(2) [OF Cons.prems, of L msg ec k] show ?thesis by (simp add: seq_def)
  next
    case Signal
    with server_step_signal [OF Cons.prems, of L msg] server_run_stopped show ?thesis
      by (fastforce simp: seq_def)
  qed
qed

lemma server_run_fields:
  assumes "log_total L"
  shows "server_fields s 1 socks False \<Longrightarrow>
   \<exists>t. server_run L msg evs s = (Inr (), t) \<and>
     server_fields t (if still_accepting evs then 1 else 0) (socks @ accepted evs) (Signal \<in> set evs)"
proof (induction evs arbitrary: s socks)
  case Nil
  then show ?case by (simp add: ret_def)
next
  case (Cons ev evs)
  show ?case
  proof (cases ev)
    case (Accepted ec k)
    obtain u where u: "server_step L msg (Accepted ec k) s = (Inr (), u)"
      "server_fields u (if ec = Ok then 1 else 0) (if ec = Ok then socks @ [k] else socks) False"
      using server_step_accept [OF assms Cons.prems] by blast
    with Cons.IH [of u "socks @ [k]"] server_run_deaf [of u socks L msg evs] Accepted show ?thesis
      by (cases "ec = Ok") (auto simp: seq_def)
  next
    case Signal
    with server_step_signal [OF Cons.prems, of L msg] server_run_stopped show ?thesis
      by (fastforce simp: seq_def)
  qed
qed

definition new_server :: "'a server_scheme \<Rightarrow> bool" where
  "new_server s \<longleftrightarrow> sv_calls s = [] \<and> sv_accepting s = 0 \<and> sv_sessions s = [] \<and> sv_stdout s = [] \<and>
     \<not> sv_signals s \<and> \<not> sv_stopped s \<and> sv_threads s = 0"

lemma main_start_fields:
  assumes "log_total L" and "new_server s" and "make_address (server_address L) = Inr addr" and "atoi (server_port L) = Inr p"
  shows "\<exists>t. main_start L msg net make_address s = (Inr (), t) \<and> server_fields t 1 [] False \<and>
    sv_calls t = upto_failure net (listen_calls addr (word_of_int p)) \<and>
    sv_stdout t = [''Server listening on '' @ addr @ '':'' @ decimal (unat (word_of_int p :: 16 word))] \<and> sv_threads t = 4"
proof -
  obtain r u where u: "new_Listener L msg net addr (word_of_int p) s = (r, u)" by fastforce
  with new_Listener_calls [OF assms(1), of msg net addr "word_of_int p" s] assms(2)
  show ?thesis
    by (simp add: main_start_def assms(3,4) atoi_4 seq_def [of "new_Listener _ _ _ _ _"] wp_def ls_run_def async_accept_def
        seq_def call_def modify_def spawn_loop_eq server_fields_def new_server_def Let_def)
qed

section \<open>Properties\<close>



definition demo_server :: server where
  "demo_server = sys.extend (sys.truncate (demo_db []))
     \<lparr>sv_calls = [], sv_accepting = 0, sv_sessions = [], sv_stdout = [], sv_signals = False, sv_stopped = False, sv_threads = 0\<rparr>"

lemma demo_server_new: "new_server demo_server"
  by (simp add: new_server_def demo_server_def sys.extend_def)

lemma demo_port: "atoi ''7001'' = Inr 7001" "atoi ''70001'' = Inr 70001"
  by (simp_all add: atoi_def skip_sign_def is_space_def is_dec_def)



end
