(* ===== verification/Application.thy ===== *)
theory Application
  imports Process WebSocket Server
begin

text \<open>
  The whole process of \<^verbatim>\<open>app/main.cc\<close>: the listener of \<^verbatim>\<open>src/Network/listener.cc\<close>, every HTTP connection and every
  WebSocket session in one state, with the handlers of all of them interleaved by the event loop. Two calls tie the parts
  together: \<open>Listener::on_accept\<close> starts an HTTP session, and \<open>HttpSession::on_read\<close> hands the socket of
  an upgrade request to a new WebSocket session. They share the clock, the logger and, between the HTTP
  sessions, the table.
\<close>

section \<open>A part of a state\<close>

text \<open>A program on a part of the state, run on the whole.\<close>

definition focus :: "('s \<Rightarrow> 't) \<Rightarrow> ('t \<Rightarrow> 's \<Rightarrow> 's) \<Rightarrow> ('t, 'b) prog \<Rightarrow> ('s, 'b) prog" where
  "focus look put_back m = (\<lambda>s. case m (look s) of (r, t) \<Rightarrow> (r, put_back t s))"

lemma focus_result: "m (look s) = (r, t) \<Longrightarrow> focus look put_back m s = (r, put_back t s)"
  by (simp add: focus_def)

locale state_part =
  fixes look :: "'s \<Rightarrow> 't" and put_back :: "'t \<Rightarrow> 's \<Rightarrow> 's"
  assumes look_put: "look (put_back t s) = t"
    and put_look: "put_back (look s) s = s"
    and put_put: "put_back t (put_back u s) = put_back t s"
begin

lemma focus_look: "focus look put_back m s = (r, u) \<Longrightarrow> m (look s) = (r, look u)"
  by (auto simp: focus_def look_put split: prod.splits)

lemma focus_preserves: "preserves I m \<Longrightarrow> preserves (\<lambda>s. I (look s)) (focus look put_back m)"
  by (auto simp: preserves_def focus_def look_put split: prod.splits)

lemma focus_ret: "focus look put_back (ret x) = ret x"
  by (simp add: focus_def ret_def put_look)

lemma focus_seq: "focus look put_back (seq m f) = seq (focus look put_back m) (\<lambda>x. focus look put_back (f x))"
  by (rule ext) (simp add: focus_def seq_def look_put put_put split: prod.split sum.split)

lemma focus_total:
  assumes "wp m (\<lambda>r t. r = Inr x \<and> I t) (look s)"
  obtains u where "focus look put_back m s = (Inr x, put_back u s)" and "I u" and "look (put_back u s) = u"
  using assms that by (auto simp: wp_def focus_def look_put split: prod.splits)

end

section \<open>State\<close>

text \<open>
  What the WebSocket sessions and the listener have besides the fields of \<open>sys\<close>, which are those of \<open>pr_app\<close>.
\<close>

record application = process +
  ap_hub :: "unit hub_ext"
  ap_listener :: "unit server_ext"

definition hub_view :: "'a application_scheme \<Rightarrow> hub" where
  "hub_view p = sys.extend (sys.truncate (pr_app p)) (ap_hub p)"

definition set_hub :: "hub \<Rightarrow> 'a application_scheme \<Rightarrow> 'a application_scheme" where
  "set_hub t p = p\<lparr>pr_app := sys.extend (sys.truncate t) (sys.more (pr_app p)), ap_hub := sys.more t\<rparr>"

definition listener_view :: "'a application_scheme \<Rightarrow> server" where
  "listener_view p = sys.extend (sys.truncate (pr_app p)) (ap_listener p)"

definition set_listener :: "server \<Rightarrow> 'a application_scheme \<Rightarrow> 'a application_scheme" where
  "set_listener t p = p\<lparr>pr_app := sys.extend (sys.truncate t) (sys.more (pr_app p)), ap_listener := sys.more t\<rparr>"

lemma sys_parts [simp]:
  "sys.extend (sys.truncate s) (sys.more s) = s" "sys.truncate (sys.extend t x) = sys.truncate t"
  "sys.extend (sys.truncate (sys.truncate s)) x = sys.extend (sys.truncate s) x" "sys.more (sys.extend t x) = x"
  by (cases s; simp add: sys.defs)+

interpretation hub_part: state_part hub_view set_hub
  by unfold_locales (simp_all add: hub_view_def set_hub_def)

interpretation listener_part: state_part listener_view set_listener
  by unfold_locales (simp_all add: listener_view_def set_listener_def)

abbreviation on_hub :: "(hub, 'b) prog \<Rightarrow> ('a application_scheme, 'b) prog" where
  "on_hub \<equiv> focus hub_view set_hub"

abbreviation on_listener :: "(server, 'b) prog \<Rightarrow> ('a application_scheme, 'b) prog" where
  "on_listener \<equiv> focus listener_view set_listener"

section \<open>Steps\<close>

text \<open>
  What the event loop runs next: the completion of an accept, or the signal; the completion of an operation of an HTTP
  session, with the address the allocator would give a WebSocket session made during it; anything
  that happens to the WebSocket sessions but the start of one.
\<close>

datatype app_event = Loop server_event | On_http nat http_event nat | On_ws hub_event

fun is_ws_start :: "hub_event \<Rightarrow> bool" where
  "is_ws_start (Ws_start i) = True"
| "is_ws_start _ = False"

fun app_enabled :: "app_event \<Rightarrow> 'a application_scheme \<Rightarrow> bool" where
  "app_enabled (Loop ev) p = True"
| "app_enabled (On_http i ev addr) p = (hub_ws (hub_view p) addr = None)"
| "app_enabled (On_ws ev) p = (\<not> is_ws_start ev \<and> hub_enabled ev (hub_view p))"

text \<open>
  \<open>Server\<close> and \<open>HttpSession\<close> record the calls of the other part in their state. \<open>following\<close> carries the call out when the
  handler has made it: the call is the last thing of \<open>on_read\<close>, and in \<open>on_accept\<close> only the next accept comes after it,
  which neither sees.
\<close>

definition following :: "('s \<Rightarrow> nat) \<Rightarrow> ('s, unit) prog \<Rightarrow> ('s, unit) prog \<Rightarrow> ('s, unit) prog" where
  "following calls m k = seq (get calls) (\<lambda>n. seq m (\<lambda>_. seq (get calls) (\<lambda>n'. if n < n' then k else ret ())))"

text \<open>\<open>boost::make_shared<HttpSession>(...)->run()\<close> and \<open>boost::make_shared<WebSocketSession>(...)->run(...)\<close>.\<close>

fun app_handler ::
  "('j, 'd) lib \<Rightarrow> (error_code \<Rightarrow> string) \<Rightarrow> (http_request \<Rightarrow> bool) \<Rightarrow> (http_response \<Rightarrow> bool)
     \<Rightarrow> session handler router \<Rightarrow> app_event \<Rightarrow> ('a application_scheme, unit) prog" where
  "app_handler L msg is_upgrade need_eof router (Loop ev) =
     following (\<lambda>p. length (sv_sessions (listener_view p))) (on_listener (server_step L msg ev)) start_session"
| "app_handler L msg is_upgrade need_eof router (On_http i ev addr) =
     following (\<lambda>p. length (cn_handed (pr_conns p ! i))) (process_step L msg is_upgrade need_eof router (On_conn i ev))
       (on_hub (seq (new_WebSocketSession addr) (\<lambda>_. ws_run addr)))"
| "app_handler L msg is_upgrade need_eof router (On_ws ev) = on_hub (hub_step L msg ev)"

text \<open>After \<open>ioContext.stop()\<close> no handler runs; an event that cannot happen is not one.\<close>

definition app_step ::
  "('j, 'd) lib \<Rightarrow> (error_code \<Rightarrow> string) \<Rightarrow> (http_request \<Rightarrow> bool) \<Rightarrow> (http_response \<Rightarrow> bool)
     \<Rightarrow> session handler router \<Rightarrow> app_event \<Rightarrow> ('a application_scheme, unit) prog" where
  "app_step L msg is_upgrade need_eof router ev =
     seq (get (\<lambda>p. \<not> sv_stopped (listener_view p) \<and> app_enabled ev p)) (\<lambda>runs.
     if runs then app_handler L msg is_upgrade need_eof router ev else ret ())"

fun app_run ::
  "('j, 'd) lib \<Rightarrow> (error_code \<Rightarrow> string) \<Rightarrow> (http_request \<Rightarrow> bool) \<Rightarrow> (http_response \<Rightarrow> bool)
     \<Rightarrow> session handler router \<Rightarrow> app_event list \<Rightarrow> ('a application_scheme, unit) prog" where
  "app_run L msg is_upgrade need_eof router [] = ret ()"
| "app_run L msg is_upgrade need_eof router (ev # evs) =
     seq (app_step L msg is_upgrade need_eof router ev) (\<lambda>_. app_run L msg is_upgrade need_eof router evs)"

text \<open>\<open>main\<close>: the listener is set up and started, the threads enter the loop, and it runs.\<close>

definition app_main ::
  "('j, 'd) lib \<Rightarrow> (error_code \<Rightarrow> string) \<Rightarrow> (http_request \<Rightarrow> bool) \<Rightarrow> (http_response \<Rightarrow> bool)
     \<Rightarrow> session handler router \<Rightarrow> (acceptor_call \<Rightarrow> error_code) \<Rightarrow> (string \<Rightarrow> exn + string) \<Rightarrow> app_event list
     \<Rightarrow> ('a application_scheme, unit) prog" where
  "app_main L msg is_upgrade need_eof router net make_address evs =
     seq (on_listener (main_start L msg net make_address)) (\<lambda>_. app_run L msg is_upgrade need_eof router evs)"

text \<open>The part of the events each component sees.\<close>

fun loop_events :: "app_event list \<Rightarrow> server_event list" where
  "loop_events [] = []"
| "loop_events (Loop ev # evs) = ev # loop_events evs"
| "loop_events (_ # evs) = loop_events evs"

fun requests_at :: "nat \<Rightarrow> app_event list \<Rightarrow> http_request list" where
  "requests_at i [] = []"
| "requests_at i (On_http j (Read_done Ok req) addr # evs) = (if j = i then [req] else []) @ requests_at i evs"
| "requests_at i (ev # evs) = requests_at i evs"

section \<open>What the parts see of each other\<close>

text \<open>A step of one part leaves the fields of the others alone, and of \<open>sys\<close> it changes what no invariant reads.\<close>

lemma more_fields:
  "sys.more s = sys.more t \<Longrightarrow> hub_ws s = hub_ws t \<and> hub_sessions s = hub_sessions t \<and> hub_gen s = hub_gen t \<and> hub_senders s = hub_senders t"
  "sys.more u = sys.more v \<Longrightarrow> sv_sessions u = sv_sessions v \<and> sv_stopped u = sv_stopped v \<and> server_fields u = server_fields v"
  for s t :: hub and u v :: server
  by (cases s; cases t; simp) (cases u; cases v; auto simp: server_fields_def fun_eq_iff)

lemma view_more [simp]: "sys.more (hub_view p) = ap_hub p" "sys.more (listener_view p) = ap_listener p"
  by (simp_all add: hub_view_def listener_view_def)

lemma hub_inv_view: "ap_hub p = ap_hub q \<Longrightarrow> hub_inv (hub_view p) = hub_inv (hub_view q)"
  using more_fields(1) [of "hub_view p" "hub_view q"] by (simp add: hub_inv_def)

lemma set_fields [simp]:
  "pr_conns (set_hub t p) = pr_conns p" "ap_listener (set_hub t p) = ap_listener p" "ap_hub (set_hub t p) = sys.more t"
  "pr_conns (set_listener u p) = pr_conns p" "ap_hub (set_listener u p) = ap_hub p" "ap_listener (set_listener u p) = sys.more u"
  by (simp_all add: set_hub_def set_listener_def)

lemma on_conn_more: "keeps process.more (on_conn i m)"
  by (simp add: keeps_def on_conn_def split: prod.split)

lemma process_step_more: "keeps process.more (process_step L msg up eof router ev)"
  by (cases ev) (auto simp: start_session_def intro!: keeps_rules on_conn_more keeps_modify)

lemma process_step_parts:
  assumes "process_step L msg up eof router ev p = (r, q)"
  shows "ap_hub q = ap_hub p" "ap_listener q = ap_listener p"
  using keeps_result [OF process_step_more assms] by (cases p; cases q; simp)+

text \<open>The generator is that of \<open>sys\<close>: whatever error it gives, logging does not change it.\<close>

lemma grown_sys: "rng_error t = rng_error a \<Longrightarrow> grown rows (sys.extend (sys.truncate t) (sys.more a)) = grown rows a" for a :: app
  by (cases a) (simp add: sys.defs grown_def table_wf_def env_std_def faults_std_def)

lemma process_inv_sys:
  assumes "process_inv L rows evs p" and "rng_error t = rng_error (pr_app p)"
    and "pr_app q = sys.extend (sys.truncate t) (sys.more (pr_app p))" and "pr_conns q = pr_conns p"
  shows "process_inv L rows evs q"
  using assms grown_sys [OF assms(2)] served_view [of L "pr_app q" _ "pr_app p"] by (simp add: process_inv_def)

lemma hub_step_keeps: "preserves (\<lambda>s. rng_error s = e \<and> (\<not> is_ws_start ev \<longrightarrow> hub_gen s = g)) (hub_step L msg ev)"
proof -
  have fail: "preserves (\<lambda>s. rng_error s = e \<and> hub_gen s = g) (ws_fail L msg ec op :: ('a hub_scheme, unit) prog)" for ec op
    unfolding ws_fail_def by (intro preserves_rules preserves_LOG) simp
  have weak: "preserves I (weak_from_all ids :: ('a hub_scheme, _) prog)" for I ids
    by (induction ids) (auto simp: session_at_def intro!: preserves_rules)
  show ?thesis
    by (cases ev)
      (auto simp: ws_handlers ss_send_begin_def ss_send_to_def ss_send_next_def intro!: preserves_rules preserves_modify fail weak
        split: prod.split)
qed

lemma server_step_keeps: "preserves (\<lambda>s. rng_error s = e) (server_step L msg ev)"
  by (cases ev) (auto simp: ls_on_accept_def async_accept_def ls_fail_def intro!: preserves_rules preserves_modify preserves_LOG)

section \<open>The hand-over\<close>

text \<open>
  A connection hands its socket over at most once, for a request that asks for an upgrade, and has
  nothing outstanding afterwards.
\<close>

definition handover :: "(http_request \<Rightarrow> bool) \<Rightarrow> conn \<Rightarrow> bool" where
  "handover up c \<longleftrightarrow> (if cn_handed c = [] then cn_socket c \<noteq> Released
     else length (cn_handed c) = 1 \<and> list_all up (cn_handed c) \<and> cn_socket c = Released \<and> cn_op c = None)"

definition handed :: "process_event \<Rightarrow> (http_request \<Rightarrow> bool) \<Rightarrow> conn \<Rightarrow> conn \<Rightarrow> bool" where
  "handed ev up c d \<longleftrightarrow> cn_handed d = cn_handed c \<or>
     (\<exists>i req. ev = On_conn i (Read_done Ok req) \<and> up req \<and> cn_handed d = cn_handed c @ [req])"

lemma step_handover:
  assumes "session_step L msg up eof (main_router L) ev s = (r, t)" and "session_inv s" and "handover up (conn_part s)"
  shows "handover up (conn_part t) \<and> handed (On_conn i ev) up (conn_part s) (conn_part t)"
proof -
  have fail: "conn_of v = conn_of u" if "hs_fail L msg ec op u = (q, v)" for ec op q and u v :: session
    using that LOG_conn [of L _ _ _ u q v] by (auto simp: hs_fail_def ret_def split: if_splits)
  show ?thesis
    using assms
    by (auto simp: session_step_def op_done_def hs_on_read_def hs_on_write_def hs_send_def shutdown_send_def do_read_def
        seq_def get_def modify_def ret_def session_inv_def handover_def handed_def conn_part_def
        dest!: fail handle_request_conn simp: conn_of_fields
        split: option.splits http_op.splits http_event.splits if_splits prod.splits sum.splits)
qed

definition handed_count :: "'a application_scheme \<Rightarrow> nat" where
  "handed_count p = sum_list (map (\<lambda>c. length (cn_handed c)) (pr_conns p))"

lemma start_session_result:
  "start_session p = (Inr (), p\<lparr>pr_conns := pr_conns p @
     [new_HttpSession\<lparr>cn_op := Some Reading, cn_body_limit := Some 10000, cn_expires := Some 100\<rparr>]\<rparr>)"
  by (simp add: start_session_def on_conn_def prog_defs hs_run_def do_read_def session_of_def new_HttpSession_def
      conn_part_def app.defs)

lemma process_step_handed:
  assumes "process_inv L rows pevs p" and "\<forall>c \<in> set (pr_conns p). handover up c"
    and "process_step L msg up eof (main_router L) (On_conn i ev) p = (Inr (), q)"
  shows "(\<forall>c \<in> set (pr_conns q). handover up c) \<and> length (pr_conns q) = length (pr_conns p) \<and>
    (if length (cn_handed (pr_conns p ! i)) < length (cn_handed (pr_conns q ! i)) then handed_count q = Suc (handed_count p)
     else handed_count q = handed_count p)"
proof (cases "i < length (pr_conns p)")
  case False
  with assms(2,3) show ?thesis by (simp add: seq_def get_def ret_def)
next
  case True
  let ?c = "pr_conns p ! i"
  let ?s = "session_of (pr_app p) ?c"
  from True assms(3) obtain t where t: "session_step L msg up eof (main_router L) ev ?s = (Inr (), t)"
    and q: "q = p\<lparr>pr_app := app.truncate t, pr_conns := (pr_conns p)[i := conn_part t]\<rparr>"
    by (auto simp: seq_def get_def on_conn_def split: prod.splits)
  have "session_inv ?s" "handover up ?c" using assms(1,2) True by (auto simp: process_inv_def served_def)
  with step_handover [OF t, of i] have "handover up (conn_part t)" "handed (On_conn i ev) up ?c (conn_part t)" by simp_all
  then have hand: "handover up (conn_part t)"
    "length (cn_handed (conn_part t)) = length (cn_handed ?c) + (if length (cn_handed ?c) < length (cn_handed (conn_part t)) then 1 else 0)"
    by (auto simp: handed_def)
  have le: "length (cn_handed ?c) \<le> handed_count p"
    using True by (simp add: handed_count_def) (metis elem_le_sum_list length_map nth_map)
  have "handed_count q = handed_count p + length (cn_handed (conn_part t)) - length (cn_handed ?c)"
    using True by (simp add: handed_count_def q map_update sum_list_update)
  with hand(2) le have "handed_count q = handed_count p + (if length (cn_handed ?c) < length (cn_handed (conn_part t)) then 1 else 0)"
    by (simp split: if_splits)
  with hand(1) True assms(2) show ?thesis
    by (auto simp: q dest: set_update_subset_insert [THEN subsetD] split: if_splits)
qed

section \<open>The events of the loop\<close>

lemma still_accepting_snoc:
  "still_accepting (les @ [Accepted ec k]) = (still_accepting les \<and> (Signal \<in> set les \<or> ec = Ok))"
  "still_accepting (les @ [Signal]) = still_accepting les"
  by (induction les rule: still_accepting.induct) auto

lemma accepted_snoc:
  "accepted (les @ [Accepted ec k]) = accepted les @ (if still_accepting les \<and> Signal \<notin> set les \<and> ec = Ok then [k] else [])"
  "accepted (les @ [Signal]) = accepted les"
  by (induction les rule: accepted.induct) auto

lemma loop_events_append: "loop_events (evs @ evs') = loop_events evs @ loop_events evs'"
  by (induction evs rule: loop_events.induct) simp_all

lemma requests_at_append: "requests_at i (evs @ evs') = requests_at i evs @ requests_at i evs'"
  by (induction i evs rule: requests_at.induct) simp_all

lemma requests_one: "requests_to j [On_conn i e] = requests_at j [On_http i e addr]"
proof (cases e)
  case (Read_done ec req)
  then show ?thesis by (cases ec) simp_all
qed simp

definition listening :: "server_event list \<Rightarrow> 'a server_scheme \<Rightarrow> bool" where
  "listening les s \<longleftrightarrow> server_fields s (if still_accepting les then 1 else 0) (accepted les) (Signal \<in> set les)"

lemma listening_stopped: "Signal \<in> set les \<Longrightarrow> listening (les @ [e]) s = listening les s"
  by (cases e) (simp_all add: listening_def still_accepting_snoc accepted_snoc)

lemma server_step_listening:
  assumes "log_total L" and "listening les s" and "Signal \<notin> set les"
  shows "wp (server_step L msg e) (\<lambda>r t. r = Inr () \<and> (listening (les @ [e]) t \<and> rng_error t = rng_error s)) s"
proof -
  have "\<exists>t. server_step L msg e s = (Inr (), t) \<and> listening (les @ [e]) t"
  proof (cases e)
    case Signal
    with assms server_step_signal [of s _ _ L msg] show ?thesis
      by (auto simp: listening_def still_accepting_snoc accepted_snoc)
  next
    case (Accepted ec k)
    with assms server_step_idle(2) [of s _ False L msg ec k] server_step_accept [OF assms(1), of s _ msg ec k] show ?thesis
      by (auto simp: listening_def still_accepting_snoc accepted_snoc split: if_splits)
  qed
  then obtain t where t: "server_step L msg e s = (Inr (), t)" "listening (les @ [e]) t" by blast
  moreover have "rng_error t = rng_error s" by (rule preserves_result [OF server_step_keeps refl t(1)])
  ultimately show ?thesis by (simp add: wp_def)
qed

section \<open>The invariant of the process\<close>

definition app_inv ::
  "('j, 'd) lib \<Rightarrow> (http_request \<Rightarrow> bool) \<Rightarrow> user list \<Rightarrow> app_event list \<Rightarrow> 'a application_scheme \<Rightarrow> bool" where
  "app_inv L up rows evs p \<longleftrightarrow>
     (\<exists>pevs. process_inv L rows pevs p \<and> (\<forall>i. subseq (requests_to i pevs) (requests_at i evs))) \<and>
     (\<forall>c \<in> set (pr_conns p). handover up c) \<and>
     hub_inv (hub_view p) \<and> hub_gen (hub_view p) = handed_count p \<and>
     listening (loop_events evs) (listener_view p) \<and> length (pr_conns p) = length (sv_sessions (listener_view p))"

lemma app_inv_stay:
  assumes "app_inv L up rows evs p" and "listening (loop_events (evs @ [ev])) (listener_view p)"
  shows "app_inv L up rows (evs @ [ev]) p"
proof -
  have "subseq xs (requests_at i evs) \<Longrightarrow> subseq xs (requests_at i (evs @ [ev]))" for xs i
    unfolding requests_at_append by (rule subseq_rev_drop_many)
  with assms show ?thesis unfolding app_inv_def by blast
qed

lemma subseq_snoc: "subseq xs ys \<Longrightarrow> subseq (xs @ zs) (ys @ zs)"
  by (rule list_emb_append_mono) simp_all

text \<open>The handler of an event that runs.\<close>

lemma app_loop_inv:
  assumes "log_total L" and "lib_throws_std L" and "argon2_fills L" and inv: "app_inv L up rows evs p"
    and run: "\<not> sv_stopped (listener_view p)"
  shows "\<exists>q. app_handler L msg up eof (main_router L) (Loop e) p = (Inr (), q) \<and> app_inv L up rows (evs @ [Loop e]) q"
proof -
  obtain pevs where pevs: "process_inv L rows pevs p" "\<And>i. subseq (requests_to i pevs) (requests_at i evs)"
    using inv unfolding app_inv_def by blast
  note parts = inv [unfolded app_inv_def]
  have on: "listening (loop_events evs) (listener_view p)" using parts by simp
  then have "Signal \<notin> set (loop_events evs)" using run by (simp add: listening_def server_fields_def)
  from listener_part.focus_total [OF server_step_listening [OF assms(1) on this, of msg e]]
  obtain u where u: "on_listener (server_step L msg e) p = (Inr (), set_listener u p)"
    "listening (loop_events (evs @ [Loop e])) u" "rng_error u = rng_error (pr_app p)" "listener_view (set_listener u p) = u"
    by (auto simp: loop_events_append listener_view_def sys.defs)
  let ?p = "set_listener u p"
  have sessions: "sv_sessions u = sv_sessions (listener_view p) \<or> (\<exists>k. sv_sessions u = sv_sessions (listener_view p) @ [k])"
    using u(2) on by (cases e) (auto simp: listening_def server_fields_def loop_events_append accepted_snoc split: if_splits)
  have here: "process_inv L rows pevs ?p"
    by (rule process_inv_sys [OF pevs(1) u(3)]) (simp_all add: set_listener_def)
  have hub: "hub_inv (hub_view ?p) = hub_inv (hub_view p)" "hub_gen (hub_view ?p) = hub_gen (hub_view p)"
    using hub_inv_view [of ?p p] more_fields(1) [of "hub_view ?p" "hub_view p"] by simp_all
  show ?thesis
  proof (cases "length (sv_sessions (listener_view p)) < length (sv_sessions u)")
    case False
    with sessions have same: "sv_sessions u = sv_sessions (listener_view p)" by auto
    have "app_handler L msg up eof (main_router L) (Loop e) p = (Inr (), ?p)"
      by (simp add: following_def seq_def get_def ret_def u(1,4) same)
    moreover have "app_inv L up rows (evs @ [Loop e]) ?p"
      using here pevs(2) parts hub u(2,4) same
      by (auto simp: app_inv_def requests_at_append handed_count_def intro!: exI [of _ pevs])
    ultimately show ?thesis by blast
  next
    case True
    let ?c = "new_HttpSession\<lparr>cn_op := Some Reading, cn_body_limit := Some 10000, cn_expires := Some 100\<rparr>"
    let ?q = "?p\<lparr>pr_conns := pr_conns ?p @ [?c]\<rparr>"
    have "app_handler L msg up eof (main_router L) (Loop e) p = (Inr (), ?q)"
      using True by (simp add: following_def seq_def get_def ret_def u(1,4) start_session_result)
    moreover have "process_inv L rows (pevs @ [Connect]) ?q"
      using process_inv_step [OF assms(1-3) here, of msg up eof Connect] by (simp add: start_session_result)
    then have "app_inv L up rows (evs @ [Loop e]) ?q"
      using pevs(2) parts hub u(2,4) True sessions
      by (auto simp: app_inv_def requests_at_append requests_to_append handed_count_def handover_def new_HttpSession_def
          hub_view_def listener_view_def intro!: exI [of _ "pevs @ [Connect]"])
    ultimately show ?thesis by blast
  qed
qed

lemma app_http_inv:
  assumes "log_total L" and "lib_throws_std L" and "argon2_fills L" and inv: "app_inv L up rows evs p"
    and free: "hub_ws (hub_view p) addr = None"
  shows "\<exists>q. app_handler L msg up eof (main_router L) (On_http i e addr) p = (Inr (), q) \<and>
    app_inv L up rows (evs @ [On_http i e addr]) q"
proof -
  obtain pevs where pevs: "process_inv L rows pevs p" "\<And>i. subseq (requests_to i pevs) (requests_at i evs)"
    using inv unfolding app_inv_def by blast
  note parts = inv [unfolded app_inv_def]
  obtain q where q: "process_step L msg up eof (main_router L) (On_conn i e) p = (Inr (), q)"
    "process_inv L rows (pevs @ [On_conn i e]) q"
    using process_inv_step [OF assms(1-3) pevs(1)] by blast
  note same = process_step_parts [OF q(1)]
  have hand: "(\<forall>c \<in> set (pr_conns q). handover up c) \<and> length (pr_conns q) = length (pr_conns p) \<and>
    (if length (cn_handed (pr_conns p ! i)) < length (cn_handed (pr_conns q ! i)) then handed_count q = Suc (handed_count p)
     else handed_count q = handed_count p)"
    by (rule process_step_handed [OF pevs(1) _ q(1)]) (use parts in blast)
  have hub: "hub_inv (hub_view q)" "hub_gen (hub_view q) = hub_gen (hub_view p)" "hub_ws (hub_view q) addr = None"
    using hub_inv_view [OF same(1)] more_fields(1) [of "hub_view q" "hub_view p"] same(1) parts free by simp_all
  have arrived: "subseq (requests_to j (pevs @ [On_conn i e])) (requests_at j (evs @ [On_http i e addr]))" for j
  proof -
    show ?thesis
      unfolding requests_to_append requests_at_append requests_one [of j i e addr] by (rule subseq_snoc) (rule pevs(2))
  qed
  have listen: "listening (loop_events (evs @ [On_http i e addr])) (listener_view q)"
    "sv_sessions (listener_view q) = sv_sessions (listener_view p)"
    using more_fields(2) [of "listener_view q" "listener_view p"] same(2) parts by (simp_all add: loop_events_append listening_def)
  show ?thesis
  proof (cases "length (cn_handed (pr_conns p ! i)) < length (cn_handed (pr_conns q ! i))")
    case False
    with q(1) have "app_handler L msg up eof (main_router L) (On_http i e addr) p = (Inr (), q)"
      by (simp add: following_def seq_def get_def ret_def)
    moreover have "app_inv L up rows (evs @ [On_http i e addr]) q"
      using q(2) arrived hand hub listen False parts by (auto simp: app_inv_def)
    ultimately show ?thesis by blast
  next
    case True
    have "wp (hub_step L msg (Ws_start addr)) (\<lambda>r t. r = Inr () \<and> (hub_inv t \<and> hub_gen t = Suc (hub_gen (hub_view q)) \<and>
        rng_error t = rng_error (hub_view q))) (hub_view q)"
      using hub_step_inv [OF hub(1), of "Ws_start addr" L msg] assms(1) hub(3)
      by (auto simp: wp_rules ws_handlers)
    from hub_part.focus_total [OF this] obtain t where t: "on_hub (hub_step L msg (Ws_start addr)) q = (Inr (), set_hub t q)"
      "hub_inv t" "hub_gen t = Suc (hub_gen (hub_view q))" "rng_error t = rng_error (pr_app q)" "hub_view (set_hub t q) = t"
      by (auto simp: hub_view_def sys.defs)
    have "app_handler L msg up eof (main_router L) (On_http i e addr) p = (Inr (), set_hub t q)"
      using q(1) t(1) True by (simp add: following_def seq_def get_def ret_def)
    moreover have "process_inv L rows (pevs @ [On_conn i e]) (set_hub t q)"
      by (rule process_inv_sys [OF q(2) t(4)]) (simp_all add: set_hub_def)
    then have "app_inv L up rows (evs @ [On_http i e addr]) (set_hub t q)"
      using arrived hand hub(2) listen True parts t(2,3,5) more_fields(2) [of "listener_view (set_hub t q)" "listener_view q"]
      by (auto simp: app_inv_def handed_count_def listening_def)
    ultimately show ?thesis by blast
  qed
qed

lemma app_ws_inv:
  assumes "log_total L" and inv: "app_inv L up rows evs p" and "\<not> is_ws_start e" and "hub_enabled e (hub_view p)"
  shows "\<exists>q. app_handler L msg up eof (main_router L) (On_ws e) p = (Inr (), q) \<and> app_inv L up rows (evs @ [On_ws e]) q"
proof -
  obtain pevs where pevs: "process_inv L rows pevs p" "\<And>i. subseq (requests_to i pevs) (requests_at i evs)"
    using inv unfolding app_inv_def by blast
  note parts = inv [unfolded app_inv_def]
  obtain r u where u: "hub_step L msg e (hub_view p) = (r, u)" by fastforce
  have "hub_inv u \<and> r = Inr ()" using hub_step_inv [OF _ assms(4), of L msg] parts assms(1) u by (simp add: wp_def)
  moreover have "rng_error u = rng_error (hub_view p) \<and> hub_gen u = hub_gen (hub_view p)"
    using preserves_result [OF hub_step_keeps _ u, of "rng_error (hub_view p)" "hub_gen (hub_view p)"] assms(3) by simp
  ultimately have "wp (hub_step L msg e) (\<lambda>r t. r = Inr () \<and> (hub_inv t \<and> hub_gen t = hub_gen (hub_view p) \<and>
      rng_error t = rng_error (hub_view p))) (hub_view p)"
    using u by (simp add: wp_def)
  from hub_part.focus_total [OF this] obtain t where t: "on_hub (hub_step L msg e) p = (Inr (), set_hub t p)"
    "hub_inv t" "hub_gen t = hub_gen (hub_view p)" "rng_error t = rng_error (pr_app p)" "hub_view (set_hub t p) = t"
    by (auto simp: hub_view_def sys.defs)
  have "process_inv L rows pevs (set_hub t p)"
    by (rule process_inv_sys [OF pevs(1) t(4)]) (simp_all add: set_hub_def)
  then have "app_inv L up rows (evs @ [On_ws e]) (set_hub t p)"
    using pevs(2) parts t(2,3,5) more_fields(2) [of "listener_view (set_hub t p)" "listener_view p"]
    by (auto simp: app_inv_def handed_count_def listening_def loop_events_append requests_at_append intro!: exI [of _ pevs])
  with t(1) show ?thesis by simp
qed

lemma app_step_inv:
  assumes "log_total L" and "lib_throws_std L" and "argon2_fills L" and inv: "app_inv L up rows evs p"
  shows "\<exists>q. app_step L msg up eof (main_router L) ev p = (Inr (), q) \<and> app_inv L up rows (evs @ [ev]) q"
proof (cases "\<not> sv_stopped (listener_view p) \<and> app_enabled ev p")
  case True
  then have "app_step L msg up eof (main_router L) ev p = app_handler L msg up eof (main_router L) ev p"
    by (simp add: app_step_def seq_def get_def)
  with True app_loop_inv [OF assms, of msg eof] app_http_inv [OF assms, of _ msg eof] app_ws_inv [OF assms(1) inv, of _ msg eof]
  show ?thesis by (cases ev) auto
next
  case False
  then have "app_step L msg up eof (main_router L) ev p = (Inr (), p)"
    by (auto simp: app_step_def seq_def get_def ret_def)
  moreover have listen: "listening (loop_events evs) (listener_view p)" using inv by (simp add: app_inv_def)
  have "listening (loop_events (evs @ [ev])) (listener_view p)"
  proof (cases ev)
    case (Loop e)
    with False have "Signal \<in> set (loop_events evs)" using listen by (simp add: listening_def server_fields_def)
    from listening_stopped [OF this, of e "listener_view p"] listen Loop show ?thesis by (simp add: loop_events_append)
  qed (use listen in \<open>simp_all add: loop_events_append\<close>)
  ultimately show ?thesis using app_inv_stay [OF inv] by blast
qed

lemma app_run_inv:
  assumes "log_total L" and "lib_throws_std L" and "argon2_fills L" and "app_inv L up rows seen p"
  shows "\<exists>q. app_run L msg up eof (main_router L) evs p = (Inr (), q) \<and> app_inv L up rows (seen @ evs) q"
  using assms(4)
proof (induction evs arbitrary: seen p)
  case (Cons ev evs)
  from app_step_inv [OF assms(1-3) Cons.prems, of msg eof ev] obtain q where
    q: "app_step L msg up eof (main_router L) ev p = (Inr (), q)" "app_inv L up rows (seen @ [ev]) q" by blast
  from Cons.IH [OF q(2)] q(1) show ?case by (simp add: seq_def)
qed (simp add: ret_def)

text \<open>The process before \<open>main\<close>.\<close>

definition new_application :: "'a application_scheme \<Rightarrow> bool" where
  "new_application p \<longleftrightarrow> pr_conns p = [] \<and> new_hub (hub_view p) \<and> hub_gen (hub_view p) = 0 \<and> new_server (listener_view p) \<and>
     table_wf (pr_app p) \<and> env_std (pr_app p)"

lemma main_start_keeps: "preserves (\<lambda>s. rng_error s = e) (main_start L msg net make_address)"
  unfolding main_start_def new_Listener_def acceptor_def ls_run_def async_accept_def ls_fail_def Let_def
  by (intro preserves_rules preserves_modify preserves_LOG) simp_all

lemma app_main_inv:
  assumes "log_total L" and "lib_throws_std L" and "argon2_fills L" and "new_application p"
    and "make_address (server_address L) = Inr addr" and "atoi (server_port L) = Inr port"
  shows "\<exists>q. app_main L msg up eof (main_router L) net make_address evs p = (Inr (), q) \<and> app_inv L up (db_rows (pr_app p)) evs q"
proof -
  note new = assms(4) [unfolded new_application_def]
  have "new_server (listener_view p)" using new by simp
  then obtain t where "main_start L msg net make_address (listener_view p) = (Inr (), t)" "listening [] t"
    using main_start_fields [where msg = msg and net = net and make_address = make_address, OF assms(1) _ assms(5,6)]
    by (auto simp: listening_def)
  moreover from this(1) have "rng_error t = rng_error (listener_view p)" by (rule preserves_result [OF main_start_keeps refl])
  ultimately have "wp (main_start L msg net make_address) (\<lambda>r t. r = Inr () \<and> (listening [] t \<and> rng_error t = rng_error (listener_view p)))
      (listener_view p)"
    by (simp add: wp_def)
  from listener_part.focus_total [OF this] obtain u where
    u: "on_listener (main_start L msg net make_address) p = (Inr (), set_listener u p)" "listening [] u"
      "rng_error u = rng_error (pr_app p)" "listener_view (set_listener u p) = u"
    by (auto simp: listener_view_def sys.defs)
  let ?q = "set_listener u p"
  have "process_inv L (db_rows (pr_app p)) [] p" using new by (simp add: process_inv_def grown_def)
  then have "process_inv L (db_rows (pr_app p)) [] ?q"
    by (rule process_inv_sys [OF _ u(3)]) (simp_all add: set_listener_def)
  moreover have "hub_inv (hub_view ?q)" "hub_gen (hub_view ?q) = 0"
    using hub_inv_view [of ?q p] new_hub_inv [of "hub_view p"] more_fields(1) [of "hub_view ?q" "hub_view p"] new by simp_all
  ultimately have "app_inv L up (db_rows (pr_app p)) [] ?q"
    using u(2,4) new by (auto simp: app_inv_def handed_count_def listening_def server_fields_def intro!: exI [of _ "[]"])
  from app_run_inv [OF assms(1-3) this, of msg eof evs] u(1) show ?thesis by (simp add: app_main_def seq_def)
qed

section \<open>The end of the process\<close>

text \<open>
  The loop has been stopped: the threads leave it, \<open>main\<close> joins them, and its variables go out of scope. The
  destructor of \<open>ioContext\<close> destroys the handlers that are still waiting, and with them the last pointers to the
  sessions; the order, \<open>ids\<close>, is the library's. The set of sessions outlives them, each has a pointer to it.
\<close>

definition ws_abandon :: "nat \<Rightarrow> ('a hub_scheme, unit) prog" where
  "ws_abandon i =
     seq (on_session i (\<lambda>w. w\<lparr>ws_alive := False, ws_posted := [], ws_accepts := 0, ws_reads := 0, ws_writes := []\<rparr>)) (\<lambda>_.
     delete_WebSocketSession i)"

primrec ws_abandon_all :: "nat list \<Rightarrow> ('a hub_scheme, unit) prog" where
  "ws_abandon_all [] = ret ()"
| "ws_abandon_all (i # is) = seq (ws_abandon i) (\<lambda>_. ws_abandon_all is)"

definition join_threads :: "('a server_scheme, unit) prog" where
  "join_threads = modify (\<lambda>s. s\<lparr>sv_threads := 1\<rparr>)"

definition exit_success :: int where
  "exit_success = 0"

text \<open>\<open>main\<close> from the return of \<open>ioContext.run()\<close>, and its exit code.\<close>

definition main_end :: "nat list \<Rightarrow> ('a application_scheme, int) prog" where
  "main_end ids =
     seq (on_listener join_threads) (\<lambda>_.
     seq (modify (\<lambda>p. p\<lparr>pr_conns := map (\<lambda>c. c\<lparr>cn_op := None\<rparr>) (pr_conns p)\<rparr>)) (\<lambda>_.
     seq (on_hub (ws_abandon_all ids)) (\<lambda>_.
     seq (on_listener (modify (\<lambda>s. s\<lparr>sv_accepting := 0, sv_signals := False\<rparr>))) (\<lambda>_.
     ret exit_success))))"

lemma ws_abandon_run:
  "hub_ws s i = Some w \<Longrightarrow> ws_abandon i s = (Inr (), s\<lparr>hub_ws := (hub_ws s)(i := None), hub_sessions := hub_sessions s - {i}\<rparr>)"
  by (simp add: ws_abandon_def ws_handlers prog_defs)

lemma ws_abandon_all_run:
  "distinct ids \<Longrightarrow> set ids \<subseteq> dom (hub_ws s) \<Longrightarrow>
   ws_abandon_all ids s = (Inr (), s\<lparr>hub_ws := hub_ws s |` (- set ids), hub_sessions := hub_sessions s - set ids\<rparr>)"
proof (induction ids arbitrary: s)
  case (Cons i ids)
  then obtain w where w: "hub_ws s i = Some w" by auto
  let ?t = "s\<lparr>hub_ws := (hub_ws s)(i := None), hub_sessions := hub_sessions s - {i}\<rparr>"
  have "set ids \<subseteq> dom (hub_ws ?t)" using Cons.prems by auto
  with Cons have rest: "ws_abandon_all ids ?t =
      (Inr (), ?t\<lparr>hub_ws := hub_ws ?t |` (- set ids), hub_sessions := hub_sessions ?t - set ids\<rparr>)" by (simp del: dom_fun_upd)
  have left: "hub_ws ?t |` (- set ids) = hub_ws s |` (- set (i # ids))" "hub_sessions ?t - set ids = hub_sessions s - set (i # ids)"
    by (auto simp: restrict_map_def fun_eq_iff)
  show ?case
    unfolding ws_abandon_all.simps seq_def ws_abandon_run [OF w] prod.case sum.case rest left by simp
qed (simp add: ret_def restrict_map_def)

end
