(* ===== verification/ApplicationStack.thy ===== *)
theory ApplicationStack
  imports Application ServerStack
begin

text \<open>
  The whole process of \<open>Application\<close> on the generated database code. No part but the repositories looks at the
  statement cache, so the simulation of \<open>ServerStack\<close> extends from one connection to the process: its properties
  are stated for the code as \<open>main\<close> wires it, with the operations of \<open>OdbUser\<close>.
\<close>

section \<open>The simulation on the process\<close>

definition put_app :: "object_statements \<Rightarrow> string list \<Rightarrow> 'a application_scheme \<Rightarrow> 'a application_scheme" where
  "put_app st h p = p\<lparr>pr_app := put st h (pr_app p)\<rparr>"

definition app_blind :: "('a application_scheme, 'b) prog \<Rightarrow> bool" where
  "app_blind m \<longleftrightarrow> (\<forall>st h p. m (put_app st h p) = (fst (m p), put_app st h (snd (m p))))"

definition app_twin :: "string set \<Rightarrow> ('a application_scheme, 'b) prog \<Rightarrow> ('a application_scheme, 'b) prog \<Rightarrow> bool" where
  "app_twin T C A \<longleftrightarrow> app_blind A \<and> (\<forall>p. coherent (odb_sts (pr_app p)) \<longrightarrow>
     (\<exists>st h. coherent st \<and> set h \<subseteq> T \<and> C p = (fst (A p), put_app st (odb_sent (pr_app p) @ h) (snd (A p)))))"

named_theorems app_twin_rules \<open>the process on the generated operations and on the table\<close>

lemma put_put [simp]: "put st h (put st' h' s) = put st h s"
  by (simp add: put_def)

lemma put_app_simps [simp]:
  "put_app st h (put_app st' h' p) = put_app st h p" "put_app (odb_sts (pr_app p)) (odb_sent (pr_app p)) p = p"
  "pr_app (put_app st h p) = put st h (pr_app p)" "pr_conns (put_app st h p) = pr_conns p"
  "ap_hub (put_app st h p) = ap_hub p" "ap_listener (put_app st h p) = ap_listener p"
  by (simp_all add: put_app_def put_def)

lemma put_sys: "sys.extend (sys.truncate t) (sys.more (put st h a)) = put st h (sys.extend (sys.truncate t) (sys.more a))"
  by (cases a) (simp add: put_def sys.defs)

lemma truncate_put: "sys.truncate (put st h a) = sys.truncate a"
  by (simp add: put_def sys.defs)

lemma put_app_views [simp]:
  "hub_view (put_app st h p) = hub_view p" "listener_view (put_app st h p) = listener_view p"
  "set_hub t (put_app st h p) = put_app st h (set_hub t p)" "set_listener u (put_app st h p) = put_app st h (set_listener u p)"
  by (cases p; simp add: hub_view_def listener_view_def set_hub_def set_listener_def put_app_def put_sys truncate_put)+

lemma app_blindD: "app_blind m \<Longrightarrow> m (put_app st h p) = (fst (m p), put_app st h (snd (m p)))"
  by (simp add: app_blind_def)

lemma app_blind_seq: "app_blind m \<Longrightarrow> (\<And>x. app_blind (f x)) \<Longrightarrow> app_blind (seq m f)"
  by (auto simp: app_blind_def seq_def split: prod.splits sum.splits)

lemma app_twin_blind:
  assumes "app_blind m"
  shows "app_twin T m m"
  unfolding app_twin_def
proof (intro conjI allI impI assms)
  fix p :: "'a application_scheme"
  let ?a = "pr_app p"
  assume here: "coherent (odb_sts ?a)"
  have "m p = (fst (m p), put_app (odb_sts ?a) (odb_sent ?a) (snd (m p)))"
    using app_blindD [OF assms, of "odb_sts ?a" "odb_sent ?a" p] by simp
  with here show "\<exists>st h. coherent st \<and> set h \<subseteq> T \<and> m p = (fst (m p), put_app st (odb_sent ?a @ h) (snd (m p)))"
    by (intro exI [of _ "odb_sts ?a"] exI [of _ "[]"]) simp
qed

lemma app_twinD:
  assumes "app_twin T C A" and "coherent (odb_sts (pr_app p))" and "A p = (r, q)"
  obtains st h where "coherent st" and "set h \<subseteq> T" and "C p = (r, put_app st (odb_sent (pr_app p) @ h) q)"
  using assms unfolding app_twin_def by (metis fst_conv snd_conv)

lemma app_twin_seq [app_twin_rules]:
  assumes "app_twin T C A" and "\<And>x. app_twin T (f x) (g x)"
  shows "app_twin T (seq C f) (seq A g)"
  unfolding app_twin_def
proof (intro conjI allI impI)
  show "app_blind (seq A g)" using assms by (intro app_blind_seq) (simp_all add: app_twin_def)
next
  fix p :: "'a application_scheme"
  assume here: "coherent (odb_sts (pr_app p))"
  obtain r q where A: "A p = (r, q)" by fastforce
  from app_twinD [OF assms(1) here A] obtain st h where C: "coherent st" "set h \<subseteq> T" "C p = (r, put_app st (odb_sent (pr_app p) @ h) q)" .
  let ?q = "put_app st (odb_sent (pr_app p) @ h) q"
  show "\<exists>st h. coherent st \<and> set h \<subseteq> T \<and>
      seq C f p = (fst (seq A g p), put_app st (odb_sent (pr_app p) @ h) (snd (seq A g p)))"
  proof (cases r)
    case (Inl e)
    with A C show ?thesis by (intro exI [of _ st] exI [of _ h]) (simp add: seq_def)
  next
    case (Inr x)
    have g: "g x ?q = (fst (g x q), put_app st (odb_sent (pr_app p) @ h) (snd (g x q)))"
      using assms(2) [of x] by (intro app_blindD) (simp add: app_twin_def)
    have "coherent (odb_sts (pr_app ?q))" using C(1) by simp
    from app_twinD [OF assms(2) this g] obtain st' h' where
      "coherent st'" "set h' \<subseteq> T" "f x ?q = (fst (g x q), put_app st' (odb_sent (pr_app ?q) @ h') (snd (g x q)))" by auto
    with A C Inr show ?thesis by (intro exI [of _ st'] exI [of _ "h @ h'"]) (simp add: seq_def)
  qed
qed

lemma app_twin_if [app_twin_rules]: "app_twin T m m' \<Longrightarrow> app_twin T n n' \<Longrightarrow> app_twin T (if b then m else n) (if b then m' else n')"
  by simp

lemma app_blind_part: "app_blind (on_hub m)" "app_blind (on_listener n)"
  by (simp_all add: app_blind_def focus_def split: prod.split)

lemma app_blind_get: "(\<And>st h p. f (put_app st h p) = f p) \<Longrightarrow> app_blind (get f)"
  by (simp add: app_blind_def get_def)

lemma app_blind_ret: "app_blind (ret x)"
  by (simp add: app_blind_def ret_def)

text \<open>One connection.\<close>

lemma session_of_put: "session_of (put st h a) c = put st h (session_of a c)"
  by (simp add: session_of_def put_def app.defs)

lemma put_parts:
  "app.truncate (put st h s) = put st h (app.truncate s)" "conn_part (put st h s) = conn_part s" for s :: session
  by (simp_all add: put_def app.defs conn_part_def)

lemma app_twin_conn [app_twin_rules]:
  assumes "twin T C A"
  shows "app_twin T (on_conn i C) (on_conn i A :: ('a application_scheme, 'b) prog)"
  unfolding app_twin_def
proof (intro conjI allI impI)
  have "blind A" using assms by (simp add: twin_def)
  then show "app_blind (on_conn i A)"
    by (auto simp: app_blind_def on_conn_def session_of_put blindD put_parts put_app_def split: prod.split)
next
  fix p :: "'a application_scheme"
  assume "coherent (odb_sts (pr_app p))"
  then have "coherent (odb_sts (session_of (pr_app p) (pr_conns p ! i)))" by (simp add: session_of_def app.defs)
  from twinD [OF assms this] obtain st h where "coherent st" "set h \<subseteq> T"
    "C (session_of (pr_app p) (pr_conns p ! i)) = (fst (A (session_of (pr_app p) (pr_conns p ! i))),
       put st (odb_sent (pr_app p) @ h) (snd (A (session_of (pr_app p) (pr_conns p ! i)))))"
    by (auto simp: put_def session_of_def app.defs)
  then show "\<exists>st h. coherent st \<and> set h \<subseteq> T \<and>
      on_conn i C p = (fst (on_conn i A p), put_app st (odb_sent (pr_app p) @ h) (snd (on_conn i A p)))"
    by (intro exI [of _ st] exI [of _ h]) (simp add: on_conn_def put_parts put_app_def split: prod.split)
qed

lemma app_blind_start: "app_blind start_session"
  by (simp add: app_blind_def start_session_result put_app_def)

lemma app_twin_following:
  assumes "\<And>st h p. f (put_app st h p) = f p" and "app_twin T C A" and "app_blind k"
  shows "app_twin T (following f C k) (following f A k)"
proof -
  have "app_blind (get f)" by (rule app_blind_get) (rule assms(1))
  then show ?thesis
    unfolding following_def by (intro app_twin_seq app_twin_if assms(2)) (simp_all add: app_twin_blind assms(3) app_blind_ret)
qed

lemma app_twin_run:
  assumes "rt_laws rt"
  shows "app_twin (repo_texts ec) (app_run L msg up eof (main_router_on (generated_db ec rt) L) evs) (app_run L msg up eof (main_router L) evs)"
proof -
  have conn: "app_twin (repo_texts ec) (process_step L msg up eof (main_router_on (generated_db ec rt) L) (On_conn i e))
      (process_step L msg up eof (main_router L) (On_conn i e))" for i e
    unfolding process_step.simps
    by (intro app_twin_rules twin_step [OF assms] app_twin_blind app_blind_get app_blind_ret) simp
  have handler: "app_twin (repo_texts ec) (app_handler L msg up eof (main_router_on (generated_db ec rt) L) ev)
      (app_handler L msg up eof (main_router L) ev)" for ev
  proof (cases ev)
    case (Loop e)
    then show ?thesis
      unfolding Loop app_handler.simps by (intro app_twin_following app_twin_blind app_blind_part app_blind_start) simp
  next
    case (On_http i e addr)
    then show ?thesis unfolding On_http app_handler.simps by (intro app_twin_following conn app_blind_part) simp
  next
    case (On_ws e)
    then show ?thesis by (auto intro!: app_twin_blind app_blind_part)
  qed
  have enabled: "app_enabled ev (put_app st h p) = app_enabled ev p" for ev st h and p :: "'a application_scheme"
    by (cases ev) simp_all
  show ?thesis
  proof (induction evs)
    case (Cons ev evs)
    then show ?case
      unfolding app_run.simps app_step_def
      by (intro app_twin_rules handler app_twin_blind app_blind_ret app_blind_get) (simp_all add: enabled)
  qed (simp add: app_twin_blind app_blind_ret)
qed

lemma app_twin_main:
  "rt_laws rt \<Longrightarrow> app_twin (repo_texts ec) (app_main L msg up eof (main_router_on (generated_db ec rt) L) net make_address evs)
     (app_main L msg up eof (main_router L) net make_address evs)"
  unfolding app_main_def by (intro app_twin_rules app_twin_run app_twin_blind app_blind_part)

lemma app_inv_put:
  assumes "app_inv L up rows evs q"
  shows "app_inv L up rows evs (put_app st h q)"
proof -
  have "process_inv L rows pevs (put_app st h q)" if "process_inv L rows pevs q" for pevs
    using that served_view [of L "put st h (pr_app q)" _ "pr_app q"]
    by (simp add: process_inv_def grown_def) (simp add: put_def table_wf_def env_std_def faults_std_def)
  with assms show ?thesis by (auto simp: app_inv_def handed_count_def)
qed

lemma app_main_generated:
  fixes p :: "'a application_scheme"
  assumes "rt_laws rt" and "coherent (odb_sts (pr_app p))"
    and "log_total L" and "lib_throws_std L" and "argon2_fills L" and "new_application p"
    and "make_address (server_address L) = Inr addr" and "atoi (server_port L) = Inr port"
  obtains q where "app_main L msg up eof (main_router_on (generated_db ec rt) L) net make_address evs p = (Inr (), q)"
    and "app_inv L up (db_rows (pr_app p)) evs q" and "coherent (odb_sts (pr_app q))"
proof -
  from app_main_inv [where make_address = make_address and up = up and p = p, OF assms(3-8)]
  obtain q where q: "app_main L msg up eof (main_router L) net make_address evs p = (Inr (), q)" "app_inv L up (db_rows (pr_app p)) evs q"
    by blast
  from app_twinD [OF app_twin_main [OF assms(1)] assms(2) q(1)] obtain st h where
    "coherent st" "app_main L msg up eof (main_router_on (generated_db ec rt) L) net make_address evs p =
      (Inr (), put_app st (odb_sent (pr_app p) @ h) q)" by blast
  with that app_inv_put [OF q(2)] show ?thesis by fastforce
qed

lemma app_inv_conn:
  assumes "app_inv L up rows evs q" and "i < length (pr_conns q)"
  shows "let c = pr_conns q ! i in
       subseq (cn_reads c) (requests_at i evs) \<and>
       length (cn_writes c) \<le> length (cn_reads c) \<and> length (cn_reads c) \<le> Suc (length (cn_writes c)) \<and>
       list_all2 (\<lambda>req res. \<exists>u v :: session. handle_request (main_router L) req u = (Inr res, v))
         (take (length (cn_writes c)) (cn_reads c)) (cn_writes c)"
proof -
  from assms(1) obtain pevs where pevs: "process_inv L rows pevs q" "\<And>i. subseq (requests_to i pevs) (requests_at i evs)"
    unfolding app_inv_def by blast
  have "subseq (cn_reads (pr_conns q ! i)) (requests_at i evs)"
    using pevs assms(2) unfolding process_inv_def by (blast intro: subseq_order.order_trans)
  moreover have "served L (session_of (pr_app q) (pr_conns q ! i))" using pevs(1) assms(2) by (simp add: process_inv_def)
  ultimately show ?thesis by (simp add: served_def session_inv_def answered_in_order_def Let_def)
qed

lemma app_inv_rest:
  assumes "app_inv L up rows evs q"
  shows "length (pr_conns q) = length (accepted (loop_events evs))"
    and "hub_sessions (hub_view q) \<subseteq> dom (hub_ws (hub_view q))"
    and "\<forall>w \<in> ran (hub_ws (hub_view q)). ws_sent w = ws_wire w @ ws_queue w @ ws_posted w"
    and "sv_stopped (listener_view q) = (Signal \<in> set (loop_events evs))"
    and "table_wf (pr_app q)" and "\<exists>new. db_rows (pr_app q) = rows @ new \<and> (\<forall>u \<in> set new. row_typed u)"
  using assms by (auto simp: app_inv_def listening_def server_fields_def hub_inv_def ws_inv_def ran_def process_inv_def grown_def)

section \<open>Properties\<close>


text \<open>
  C10: The process on the generated code is the process on the table. From any state and for any events, the
  run of \<open>main\<close> with the generated operations has the outcome of the run on the table, and leaves every connection, every
  WebSocket session, the listener, the table and the log as that run leaves them; only the statement cache differs, and
  what was sent to the server are the six fixed texts.
\<close>

theorem application_on_generated:
  fixes p :: application
  assumes "rt_laws rt" and "coherent (odb_sts (pr_app p))"
  shows "\<exists>st h. coherent st \<and> set h \<subseteq> repo_texts ec \<and>
    (let (r, q) = app_main L msg is_upgrade need_eof (main_router L) net make_address evs p
     in app_main L msg is_upgrade need_eof (main_router_on (generated_db ec rt) L) net make_address evs p =
          (r, q\<lparr>pr_app := (pr_app q)\<lparr>odb_sts := st, odb_sent := odb_sent (pr_app p) @ h\<rparr>\<rparr>))"
proof -
  obtain r q where q: "app_main L msg is_upgrade need_eof (main_router L) net make_address evs p = (r, q)" by fastforce
  from app_twinD [OF app_twin_main [OF assms(1)] assms(2) q] show ?thesis
    unfolding q prod.case Let_def put_app_def put_def by metis
qed

text \<open>The process before \<open>main\<close>, with an empty table.\<close>

definition demo_application :: application where
  "demo_application = \<lparr>pr_app = demo_app, pr_conns = [], ap_hub = sys.more demo_hub, ap_listener = sys.more demo_server\<rparr>"

lemma demo_application_new: "new_application demo_application" "coherent (odb_sts (pr_app demo_application))"
proof -
  have "hub_gen demo_hub = 0" by (simp add: demo_hub_def sys.extend_def)
  moreover have "sys.more (hub_view demo_application) = sys.more demo_hub" by (simp add: demo_application_def)
  ultimately have "new_hub (hub_view demo_application)" "hub_gen (hub_view demo_application) = 0"
    using demo_hub_new more_fields(1) [of "hub_view demo_application" demo_hub] by (simp_all add: new_hub_def)
  moreover have "new_server (listener_view demo_application)"
    using demo_server_new by (simp add: new_server_def listener_view_def demo_application_def demo_server_def sys.defs)
  ultimately show "new_application demo_application"
    by (simp add: new_application_def) (simp add: demo_application_def demo_app_facts)
  show "coherent (odb_sts (pr_app demo_application))" by (simp add: demo_application_def demo_app_cache)
qed

lemma demo_fills: "argon2_fills demo_lib"
  by (auto simp: argon2_fills_def demo_argon2_def min_def)


theorem application_on_generated_witness:
  "\<exists>st h. coherent st \<and> set h \<subseteq> repo_texts ''WHERE username = $1'' \<and>
    (let (r, q) = app_main demo_lib (\<lambda>_. []) (\<lambda>_. False) (\<lambda>_. False) (main_router demo_lib) (\<lambda>_. Ok) Inr [Loop (Accepted Ok 5)] demo_application
     in app_main demo_lib (\<lambda>_. []) (\<lambda>_. False) (\<lambda>_. False) (main_router_on (generated_db ''WHERE username = $1'' demo_rt) demo_lib)
         (\<lambda>_. Ok) Inr [Loop (Accepted Ok 5)] demo_application =
          (r, q\<lparr>pr_app := (pr_app q)\<lparr>odb_sts := st, odb_sent := odb_sent (pr_app demo_application) @ h\<rparr>\<rparr>))"
  by (rule application_on_generated [OF demo_rt_laws demo_application_new(2)])

section \<open>The upgrade\<close>

lemma session_upgrade:
  "cn_op c = Some Reading \<Longrightarrow> up req \<Longrightarrow> session_step L msg up eof router (Read_done Ok req) (session_of a c) =
     (Inr (), session_of a (c\<lparr>cn_op := None, cn_socket := Released, cn_handed := cn_handed c @ [req]\<rparr>))"
  by (simp add: session_step_def op_done_def hs_on_read_def prog_defs session_of_def app.defs)

lemma upgrade_step:
  assumes "session_inv (session_of (pr_app q) (pr_conns q ! i))" and "i < length (pr_conns q)"
    and "cn_op (pr_conns q ! i) = Some Reading" and "up req"
  shows "process_step L msg up eof router (On_conn i (Read_done Ok req)) q = (Inr (), q\<lparr>pr_conns := (pr_conns q)
      [i := (pr_conns q ! i)\<lparr>cn_op := None, cn_socket := Released, cn_handed := [req]\<rparr>]\<rparr>)"
    and "cn_handed (pr_conns q ! i) = []"
proof -
  show none: "cn_handed (pr_conns q ! i) = []" using assms(1,3) by (simp add: session_inv_def session_of_def app.defs)
  show "process_step L msg up eof router (On_conn i (Read_done Ok req)) q = (Inr (), q\<lparr>pr_conns := (pr_conns q)
      [i := (pr_conns q ! i)\<lparr>cn_op := None, cn_socket := Released, cn_handed := [req]\<rparr>]\<rparr>)"
    using assms(2) by (simp add: seq_def get_def on_conn_def session_upgrade [where up = up and req = req, OF assms(3,4)] none)
qed

lemma start_at:
  "hub_step L msg (Ws_start a) s = (Inr (), s\<lparr>hub_ws := (hub_ws s)(a \<mapsto> \<lparr>ws_alive = True, ws_gen = hub_gen s, ws_buffer = [],
     ws_queue = [], ws_posted = [], ws_accepts = 1, ws_reads = 0, ws_writes = [], ws_sent = [], ws_wire = [], ws_failed = False\<rparr>),
     hub_gen := Suc (hub_gen s)\<rparr>)"
  by (simp add: ws_handlers prog_defs)

lemma upgrade_result:
  fixes q :: "'a application_scheme"
  assumes inv: "app_inv L up rows evs q" and now: "\<not> sv_stopped (listener_view q)" "i < length (pr_conns q)"
      "cn_op (pr_conns q ! i) = Some Reading" "up req" "hub_ws (hub_view q) a = None"
  shows "\<exists>u w. app_step L msg up eof router (On_http i (Read_done Ok req) a) q = (Inr (), u) \<and>
    pr_conns u = (pr_conns q)[i := (pr_conns q ! i)\<lparr>cn_op := None, cn_socket := Released, cn_handed := [req]\<rparr>] \<and>
    hub_ws (hub_view u) = (hub_ws (hub_view q))(a \<mapsto> w) \<and> ws_alive w \<and> ws_accepts w = 1 \<and> ws_sent w = [] \<and>
    a \<notin> hub_sessions (hub_view u) \<and> db_rows (pr_app u) = db_rows (pr_app q) \<and> ap_listener u = ap_listener q \<and>
    (\<forall>ev b. app_step L msg up eof router (On_http i ev b) u = (Inr (), u))"
proof -
  have "session_inv (session_of (pr_app q) (pr_conns q ! i))"
    using inv now(2) by (auto simp: app_inv_def process_inv_def served_def)
  note up = upgrade_step(1) [where up = up and req = req and L = L and msg = msg and eof = eof and router = router, OF this now(2-4)]
    upgrade_step(2) [where up = up and req = req, OF this now(2-4)]
  let ?q = "q\<lparr>pr_conns := (pr_conns q)[i := (pr_conns q ! i)\<lparr>cn_op := None, cn_socket := Released, cn_handed := [req]\<rparr>]\<rparr>"
  let ?w = "\<lparr>ws_alive = True, ws_gen = hub_gen (hub_view q), ws_buffer = [], ws_queue = [], ws_posted = [], ws_accepts = 1,
    ws_reads = 0, ws_writes = [], ws_sent = [], ws_wire = [], ws_failed = False\<rparr>"
  let ?t = "(hub_view q)\<lparr>hub_ws := (hub_ws (hub_view q))(a \<mapsto> ?w), hub_gen := Suc (hub_gen (hub_view q))\<rparr>"
  let ?u = "set_hub ?t ?q"
  have view: "hub_view ?q = hub_view q" by (simp add: hub_view_def)
  have "app_step L msg up eof router (On_http i (Read_done Ok req) a) q = (Inr (), ?u)"
    using now(1,2,5) start_at [of L msg a "hub_view q"] up
    by (simp add: app_step_def following_def seq_def get_def focus_def view)
  moreover have "hub_view ?u = ?t" by (rule hub_part.look_put)
  moreover have "a \<notin> hub_sessions (hub_view q)" using inv now(5) by (auto simp: app_inv_def hub_inv_def)
  moreover have "db_rows (pr_app ?u) = db_rows (pr_app q)" by (cases "pr_app q") (simp add: set_hub_def sys.defs)
  moreover have "app_step L msg up eof router (On_http i ev b) ?u = (Inr (), ?u)" for ev b
    using now(2) by (simp add: app_step_def following_def seq_def get_def ret_def on_conn_def session_step_def)
  ultimately show ?thesis by (intro exI [of _ ?u] exI [of _ ?w]) simp
qed


text \<open>The first connection of a process.\<close>

lemma listener_total:
  assumes "m (listener_view p) = (Inr (), t)"
  shows "on_listener m p = (Inr (), set_listener t p)" "listener_view (set_listener t p) = t" "hub_ws (hub_view (set_listener t p)) = hub_ws (hub_view p)"
  using assms more_fields(1) [of "hub_view (set_listener t p)" "hub_view p"] by (simp_all add: focus_def listener_part.look_put)

lemma first_connection:
  assumes "log_total L" and "new_application p" and "make_address (server_address L) = Inr addr" and "atoi (server_port L) = Inr port"
  obtains q where "app_main L msg up eof router net make_address [Loop (Accepted Ok k)] p = (Inr (), q)"
    and "length (pr_conns q) = 1" and "cn_op (pr_conns q ! 0) = Some Reading" and "\<not> sv_stopped (listener_view q)"
    and "sv_signals (listener_view q)" and "\<forall>a. hub_ws (hub_view q) a = None"
proof -
  note new = assms(2) [unfolded new_application_def]
  obtain t where t: "main_start L msg net make_address (listener_view p) = (Inr (), t)" "server_fields t 1 [] False"
    using main_start_fields [where msg = msg and net = net and make_address = make_address, OF assms(1) _ assms(3,4)] new by blast
  note started = listener_total [where m = "main_start L msg net make_address" and p = p, OF t(1)]
  obtain u where u: "server_step L msg (Accepted Ok k) t = (Inr (), u)" "server_fields u 1 [k] False"
    using server_step_accept [OF assms(1) t(2), of msg Ok k] by auto
  let ?p = "set_listener t p"
  have "server_step L msg (Accepted Ok k) (listener_view ?p) = (Inr (), u)" using u(1) started(2) by simp
  note accepted = listener_total [where m = "server_step L msg (Accepted Ok k)" and p = ?p, OF this]
  let ?c = "new_HttpSession\<lparr>cn_op := Some Reading, cn_body_limit := Some 10000, cn_expires := Some 100\<rparr>"
  let ?q = "(set_listener u ?p)\<lparr>pr_conns := [?c]\<rparr>"
  have "app_main L msg up eof router net make_address [Loop (Accepted Ok k)] p = (Inr (), ?q)"
    using t(2) u(2) new
    by (simp add: app_main_def app_step_def following_def seq_def get_def ret_def started accepted start_session_result
        server_fields_def del: server_step.simps)
  moreover have "listener_view ?q = u" "hub_ws (hub_view ?q) = hub_ws (hub_view p)"
    using accepted(2,3) started(3) by (simp_all add: listener_view_def hub_view_def)
  ultimately show ?thesis using that u(2) new by (simp add: server_fields_def new_hub_def)
qed


section \<open>A request\<close>

text \<open>One request on a connection that is reading, and the completion of its response.\<close>

lemma session_request:
  assumes "cn_op c = Some Reading" and "\<not> up req"
    and "handle_request G req (session_of a (c\<lparr>cn_op := None, cn_reads := cn_reads c @ [req]\<rparr>)) = (Inr res, b)"
  shows "session_step L msg up eof G (Read_done Ok req) (session_of a c) =
    (Inr (), b\<lparr>hs_op := Some (Writing res), hs_writes := hs_writes b @ [res]\<rparr>)"
proof -
  have "(session_of a c)\<lparr>hs_op := None, hs_reads := hs_reads (session_of a c) @ [req]\<rparr> =
      session_of a (c\<lparr>cn_op := None, cn_reads := cn_reads c @ [req]\<rparr>)"
    by (simp add: session_of_def app.defs)
  with assms show ?thesis
    by (simp add: session_step_def op_done_def hs_on_read_def hs_send_def prog_defs)
qed

lemma session_written:
  "cn_op c = Some (Writing res) \<Longrightarrow> session_step L msg up eof G (Write_done Ok) (session_of a c) =
     (Inr (), session_of a (if eof res then c\<lparr>cn_op := None, cn_socket := Shutdown_send\<rparr>
        else c\<lparr>cn_op := Some Reading, cn_body_limit := Some 10000, cn_expires := Some 100\<rparr>))"
  by (simp add: session_step_def op_done_def hs_on_write_def shutdown_send_def do_read_def prog_defs session_of_def app.defs)

lemma request_generated:
  fixes s :: session
  assumes "rt_laws rt" and "coherent (odb_sts s)" and "log_total L" and "lib_throws_std L" and "env_std s"
  obtains res b where "handle_request (main_router_on (generated_db ec rt) L) req s = (Inr res, b)" and "conn_part b = conn_part s"
proof -
  obtain res t where t: "handle_request (main_router L) req s = (Inr res, t)"
    using request_outcome [OF assms(3-5)] by blast
  from twinD [OF twin_request [OF assms(1)] assms(2), of ec L req] obtain st h where
    "handle_request (main_router_on (generated_db ec rt) L) req s = (Inr res, put st h t)"
    unfolding t put_def by auto
  moreover have "conn_part (put st h t) = conn_part s"
    unfolding put_parts using handle_request_conn [OF t] by (simp add: conn_of_fields conn_part_def)
  ultimately show ?thesis using that by blast
qed

lemma app_http_quiet:
  assumes "\<not> sv_stopped (listener_view q)" and "hub_ws (hub_view q) a = None" and "i < length (pr_conns q)"
    and "session_step L msg up eof G e (session_of (pr_app q) (pr_conns q ! i)) = (Inr (), t)"
    and "cn_handed (conn_part t) = cn_handed (pr_conns q ! i)"
  shows "app_step L msg up eof G (On_http i e a) q =
    (Inr (), q\<lparr>pr_app := app.truncate t, pr_conns := (pr_conns q)[i := conn_part t]\<rparr>)"
  using assms by (simp add: app_step_def following_def seq_def get_def ret_def on_conn_def)



section \<open>The end\<close>

lemma stopped_run: "sv_stopped (listener_view q) \<Longrightarrow> app_run L msg up eof router evs q = (Inr (), q)"
  by (induction evs) (simp_all add: app_step_def seq_def get_def ret_def)

lemma more_threads: "sys.more u = sys.more v \<Longrightarrow> sv_threads u = sv_threads v" for u v :: server
  by (cases u; cases v) simp

lemma more_signals: "sys.more u = sys.more v \<Longrightarrow> sv_signals u = sv_signals v" for u v :: server
  by (cases u; cases v) simp

lemma signal_step:
  assumes "\<not> sv_stopped (listener_view u)" and "sv_signals (listener_view u)"
  shows "\<exists>v. app_step L msg up eof router (Loop Signal) u = (Inr (), v) \<and> hub_ws (hub_view v) = hub_ws (hub_view u)"
proof -
  let ?t = "(listener_view u)\<lparr>sv_signals := False, sv_stopped := True\<rparr>"
  have "server_step L msg Signal (listener_view u) = (Inr (), ?t)" using assms by (simp add: seq_def get_def modify_def)
  note moved = listener_total [where m = "server_step L msg Signal" and p = u, OF this]
  have "app_step L msg up eof router (Loop Signal) u = (Inr (), set_listener ?t u)"
    using assms(1) by (simp add: app_step_def following_def seq_def get_def ret_def moved del: server_step.simps)
  with moved(3) show ?thesis by blast
qed


lemma app_run_append:
  "app_run L msg up eof router (evs @ evs') = seq (app_run L msg up eof router evs) (\<lambda>_. app_run L msg up eof router evs')"
  by (induction evs) (simp_all add: seq_assoc)

lemma app_main_append:
  "app_main L msg up eof router net make_address (evs @ evs') =
     seq (app_main L msg up eof router net make_address evs) (\<lambda>_. app_run L msg up eof router evs')"
  by (simp add: app_main_def app_run_append seq_assoc)


end
