(* ===== verification/TokenOutage.thy ===== *)
theory TokenOutage
  imports Endpoints
begin

text \<open>
  What a registration is answered when the token cannot be made. \<open>CreateUser\<close> of \<^verbatim>\<open>app/Services/UserService.h\<close> stores
  the user first and signs the token after it; the row is committed by then, and nothing takes it back.
\<close>

section \<open>The signer fails\<close>

definition signer_down :: "('j, 'd) lib \<Rightarrow> bool" where
  "signer_down L \<longleftrightarrow> (\<forall>k c. \<exists>e. jwt_sign L k c = Inl e)"

lemma CreateJWTToken_down:
  assumes "signer_down L" and "log_total L" and "lib_throws_std L"
  shows "\<exists>t. CreateJWTToken L n s = (Inl (Runtime_error ''Error while trying to create JWT token''), t) \<and> sys_touched s t"
proof -
  obtain r t where t: "CreateJWTToken L n s = (r, t)" by fastforce
  obtain e where e: "jwt_sign L (secret_key L) \<lparr>jwt_type = ''JWS'', jwt_issuer = project_name L,
      jwt_issued_at = clk_seq s (clk_pos s), jwt_expires_at = clk_seq s (clk_pos s) + token_lifetime,
      jwt_payload = [(''username'', n)]\<rparr> = Inl e"
    using assms(1) by (auto simp: signer_down_def)
  then have "is_std e" using assms(3) unfolding lib_throws_std_def by blast
  then have "wp (CreateJWTToken L n) (\<lambda>r t. r = Inl (Runtime_error ''Error while trying to create JWT token'')) s"
    unfolding CreateJWTToken_def Let_def
    by (intro wp_rethrow) (simp add: wp_def system_now_def call_def seq_def e assms(2))
  from wpD [OF this t] t touches_result [OF touches_Token t] show ?thesis by simp
qed

context user_service
begin

lemma CreateUser_down:
  assumes "wf s" and "calm s" and "room s" and "credentials L request = Inr (n, p)" and "n \<notin> u_username ` set (rows s)"
    and "rng_error s = None" and "\<And>salt. argon2_hash L p salt \<noteq> None"
    and "signer_down L" and "log_total L" and "lib_throws_std L"
  shows "\<exists>t. CreateUser L repo request s = (Inr (ResponseDto_Failure generic_failure), t) \<and> created L request s t"
proof -
  obtain h salt t where h: "HashPasswordWithArgon2 L p s = (Inr (h, salt), t)"
    using assms(6) assms(7) [of "next_bytes s 16"] by (auto simp: HashPassword_Inr)
  define u where "u = User n h (toHexString salt)"
  note same = touched [OF touches_result [OF touches_Hash h]]
  obtain t2 i where c: "create_user u t = (Inr (SuccessResult u), t2)" "rows t2 = rows t @ [u\<lparr>u_id := i\<rparr>]"
    using calm_fresh [of t u] same assms(1-3,5) by (auto simp: u_def)
  obtain t3 where tok: "CreateJWTToken L n t2 = (Inl (Runtime_error ''Error while trying to create JWT token''), t3)"
    "sys_touched t2 t3"
    using CreateJWTToken_down [OF assms(8-10)] by blast
  obtain r t4 where log: "LOG L ERROR ''Error while trying to create JWT token'' (us_site 82 ''CreateUser'') t3 = (r, t4)" by fastforce
  then have "r = Inr ()" using LOG_fst [OF assms(9)] by (metis fst_conv)
  then have run: "CreateUser L repo request s = (Inr (ResponseDto_Failure generic_failure), t4)"
    unfolding CreateUser_def read_credentials assms(4)
    using h c tok log
    by (auto simp: service_catch_def catch2_def catch_def seq_def ret_def Let_def u_def)
  have "rows t4 = rows s @ [u\<lparr>u_id := i\<rparr>]"
    using c(2) same touched [OF tok(2)] touched [OF touches_result [OF touches_LOG log]] by simp
  then have "\<not> untouched s t4" by (simp add: untouched_def)
  with wpD [OF CreateUser_spec [OF assms(1)] run] run show ?thesis by blast
qed

end

section \<open>Properties\<close>


text \<open>The library of the witnesses with a signer that always throws.\<close>

definition down_lib :: "(demo_json, nat \<times> nat \<times> string) lib" where
  "down_lib = demo_lib\<lparr>jwt_sign := \<lambda>k c. Inl (Runtime_error ''no key'')\<rparr>"


end
