(* ===== verification/OdbStatements.thy ===== *)
theory OdbStatements
  imports OdbUser
begin

text \<open>
  The descriptions of the prepared statements in \<^verbatim>\<open>app/Entities/odb/User-odb.{hxx,cxx}\<close>: their names, the
  types they declare for their parameters, the columns of queries and the sizes of the arrays. They are
  written down apart from the texts and from the functions that bind the arrays, and the server is
  sent what all of them say; the property is that they say the same.
\<close>

section \<open>The descriptions\<close>

datatype oid = Int4_oid | Text_oid

definition persist_statement_name :: string where "persist_statement_name = ''persist_User''"
definition find_statement_name :: string where "find_statement_name = ''find_User''"
definition update_statement_name :: string where "update_statement_name = ''update_User''"
definition erase_statement_name :: string where "erase_statement_name = ''erase_User''"
definition query_statement_name :: string where "query_statement_name = ''query_User''"
definition erase_query_statement_name :: string where "erase_query_statement_name = ''erase_query_User''"

definition persist_statement_types :: "oid list" where
  "persist_statement_types = [Text_oid, Text_oid, Text_oid]"

definition find_statement_types :: "oid list" where
  "find_statement_types = [Int4_oid]"

definition update_statement_types :: "oid list" where
  "update_statement_types = [Text_oid, Text_oid, Text_oid, Int4_oid]"

definition table_name :: string where
  "table_name = ''\"User\"''"

text \<open>\<open>query_columns<User, id_pgsql, A>\<close> with \<open>A::table_name\<close> the table of the object.\<close>

record query_column =
  qc_table :: string
  qc_column :: string
  qc_type :: oid

fun query_columns :: "column \<Rightarrow> query_column" where
  "query_columns Col_id = \<lparr>qc_table = table_name, qc_column = ''\"id\"'', qc_type = Int4_oid\<rparr>"
| "query_columns Col_username = \<lparr>qc_table = table_name, qc_column = ''\"username\"'', qc_type = Text_oid\<rparr>"
| "query_columns Col_passwordHash = \<lparr>qc_table = table_name, qc_column = ''\"passwordHash\"'', qc_type = Text_oid\<rparr>"
| "query_columns Col_salt = \<lparr>qc_table = table_name, qc_column = ''\"salt\"'', qc_type = Text_oid\<rparr>"

definition column_count :: nat where "column_count = 4"
definition id_column_count :: nat where "id_column_count = 1"
definition inverse_column_count :: nat where "inverse_column_count = 0"
definition readonly_column_count :: nat where "readonly_column_count = 0"
definition managed_optimistic_column_count :: nat where "managed_optimistic_column_count = 0"

section \<open>Rendering\<close>

text \<open>What the texts have to be for the columns of the bound arrays.\<close>

fun slot_column :: "slot \<Rightarrow> column" where
  "slot_column (Int_slot c) = c"
| "slot_column (Text_slot c a cap) = c"

fun slot_oid :: "slot \<Rightarrow> oid" where
  "slot_oid (Int_slot c) = Int4_oid"
| "slot_oid (Text_slot c a cap) = Text_oid"

fun commas :: "string list \<Rightarrow> string" where
  "commas [] = []"
| "commas [x] = x"
| "commas (x # y # ys) = x @ '', '' @ commas (y # ys)"

definition column_name :: "slot \<Rightarrow> string" where
  "column_name sl = qc_column (query_columns (slot_column sl))"

definition full_name :: "slot \<Rightarrow> string" where
  "full_name sl = qc_table (query_columns (slot_column sl)) @ ''.'' @ column_name sl"

text \<open>The placeholder of the parameter at index \<open>i\<close>, counted from 0; the statements have at most nine.\<close>

definition placeholder :: "nat \<Rightarrow> string" where
  "placeholder i = [CHR ''$'', ''123456789'' ! i]"

definition placeholders :: "nat \<Rightarrow> slot list \<Rightarrow> string list" where
  "placeholders i sls = map placeholder [i ..< i + length sls]"

definition equations :: "(slot \<Rightarrow> string) \<Rightarrow> nat \<Rightarrow> slot list \<Rightarrow> string list" where
  "equations f i sls = map2 (\<lambda>sl p. f sl @ ''='' @ p) sls (placeholders i sls)"

definition rendered_select :: "slot list \<Rightarrow> string" where
  "rendered_select sls = ''SELECT '' @ commas (map full_name sls) @ '' FROM '' @ table_name"

definition rendered_insert :: "slot list \<Rightarrow> slot list \<Rightarrow> string" where
  "rendered_insert ids sls = ''INSERT INTO '' @ table_name @ '' ('' @ commas (map column_name (ids @ sls)) @
     '') VALUES ('' @ commas (map (\<lambda>_. ''DEFAULT'') ids @ placeholders 0 sls) @ '') RETURNING '' @ commas (map column_name ids)"

definition rendered_update :: "slot list \<Rightarrow> slot list \<Rightarrow> string" where
  "rendered_update ids sls = ''UPDATE '' @ table_name @ '' SET '' @ commas (equations column_name 0 sls) @
     '' WHERE '' @ commas (equations column_name (length sls) ids)"

definition rendered_delete :: "slot list \<Rightarrow> string" where
  "rendered_delete ids = ''DELETE FROM '' @ table_name @ '' WHERE '' @ commas (equations column_name 0 ids)"

lemmas rendered_defs = rendered_select_def rendered_insert_def rendered_update_def rendered_delete_def
  equations_def placeholders_def placeholder_def column_name_def full_name_def table_name_def

lemmas statement_texts = persist_statement_def find_statement_def update_statement_def erase_statement_def
  query_statement_def erase_query_statement_def

lemmas statement_types = persist_statement_types_def find_statement_types_def update_statement_types_def

lemmas statement_names = persist_statement_name_def find_statement_name_def update_statement_name_def
  erase_statement_name_def query_statement_name_def erase_query_statement_name_def

lemmas column_counts = column_count_def id_column_count_def inverse_column_count_def readonly_column_count_def
  managed_optimistic_column_count_def

lemma bound_arrays:
  "tr_bind im Statement_select = tr_bind_id ii @ tr_bind im Statement_insert"
  "tr_bind im Statement_update = tr_bind im Statement_insert"
  "map slot_column (tr_bind im Statement_insert) = [Col_username, Col_passwordHash, Col_salt]"
  "map slot_column (tr_bind_id ii) = [Col_id]"
  by (simp_all add: tr_bind_def tr_bind_id_def text_slot_def)

section \<open>Properties\<close>

text \<open>
  C12: The statements are what they are bound to. For any image and id image, each text names exactly the columns
  of the arrays \<open>bind\<close> fills, in their order and qualified by the table, and numbers its parameters by the positions
  of the array; the declared parameter types are the types of the entries, the select array has all
  columns and the insert and update arrays all but the identifier and those of the kinds the class has none of, every entry has the type of its column, and the six statements have six names.
\<close>

theorem statements_match_bindings:
  "find_statement = rendered_select (tr_bind im Statement_select) @ '' WHERE '' @ commas (equations full_name 0 (tr_bind_id ii)) \<and>
   query_statement = rendered_select (tr_bind im Statement_select) \<and>
   persist_statement = rendered_insert (tr_bind_id ii) (tr_bind im Statement_insert) \<and>
   update_statement = rendered_update (tr_bind_id ii) (tr_bind im Statement_update) \<and>
   erase_statement = rendered_delete (tr_bind_id ii) \<and>
   erase_query_statement = ''DELETE FROM '' @ table_name \<and>
   map slot_oid (tr_bind im Statement_insert) = persist_statement_types \<and>
   map slot_oid (tr_bind im Statement_update @ tr_bind_id ii) = update_statement_types \<and>
   map slot_oid (tr_bind_id ii) = find_statement_types \<and>
   length (tr_bind im Statement_select) = column_count \<and>
   length (tr_bind im Statement_insert) + id_column_count + inverse_column_count + managed_optimistic_column_count = column_count \<and>
   length (tr_bind im Statement_update) + id_column_count + inverse_column_count + readonly_column_count = column_count \<and>
   length (tr_bind_id ii) = id_column_count \<and>
   map slot_oid (tr_bind im Statement_select) = map (\<lambda>sl. qc_type (query_columns (slot_column sl))) (tr_bind im Statement_select) \<and>
   distinct [persist_statement_name, find_statement_name, update_statement_name, erase_statement_name,
     query_statement_name, erase_query_statement_name]"
  unfolding statement_texts statement_types statement_names column_counts
  by (simp add: tr_bind_def tr_bind_id_def text_slot_def rendered_defs upt_rec)

end
