(* ===== verification/UtilityGuarantees.thy ===== *)
theory UtilityGuarantees
  imports PasswordHelper ConcreteLib
begin

text \<open>
  What the logger and the password functions guarantee to the rest of the program, stated over whole
  calls: sequences of \<open>LOG\<close>, and a password that is hashed, stored and verified later.
\<close>

section \<open>Sequences of log calls\<close>

fun log_all :: "('j, 'd) lib \<Rightarrow> (log_level \<times> string \<times> site) list \<Rightarrow> ('a sys_scheme, unit) prog" where
  "log_all L [] = ret ()"
| "log_all L ((level, message, at) # ms) = seq (LOG L level message at) (\<lambda>_. log_all L ms)"

text \<open>The text of an entry is the JSON object with these six members, for the time of the call.\<close>

definition entry_for :: "('j, 'd) lib \<Rightarrow> log_level \<times> string \<times> site \<Rightarrow> string \<Rightarrow> bool" where
  "entry_for L m e \<longleftrightarrow> (case m of (level, message, src, line, fn) \<Rightarrow>
     \<exists>now. json_dump_indent L 4 (log_entry_json L (put_datetime L now) level message (path_filename src) line fn) = Inr e)"

definition passes :: "log_service \<Rightarrow> log_level \<times> string \<times> site \<Rightarrow> bool" where
  "passes svc m \<longleftrightarrow> currentLevel svc \<le> fst m"

lemma LOG_existing:
  assumes "log_instance s = Some svc" and "log_total L"
  shows "if passes svc (level, message, at)
    then \<exists>e. entry_for L (level, message, at) e \<and>
      LOG L level message at s = (Inr (), s\<lparr>clk_pos := Suc (clk_pos s), log_instance := Some (push_message e svc)\<rparr>)
    else LOG L level message at s = (Inr (), s)"
proof (cases at)
  case (fields src line fn)
  obtain e where "json_dump_indent L 4 (log_entry_json L (put_datetime L (clk_seq s (clk_pos s))) level message
      (path_filename src) line fn) = Inr e"
    using assms(2) unfolding log_total_def by blast
  then show ?thesis
    using assms(1) fields
    by (auto simp: passes_def entry_for_def LOG_def getInstance_def log_message_def system_now_def prog_defs not_le [symmetric])
qed

lemma log_all_queue:
  assumes "log_total L" and "log_instance s = Some svc"
  shows "\<exists>t es. log_all L ms s = (Inr (), t) \<and> list_all2 (entry_for L) (filter (passes svc) ms) es \<and>
    log_instance t = Some (svc\<lparr>messageQueue := messageQueue svc @ es\<rparr>)"
  using assms(2)
proof (induction ms arbitrary: s svc)
  case Nil
  then show ?case by (simp add: prog_defs)
next
  case (Cons m ms)
  obtain level message at where m: "m = (level, message, at)" by (cases m)
  note step = LOG_existing [OF Cons.prems assms(1), of level message at]
  show ?case
  proof (cases "passes svc m")
    case False
    with step Cons.IH [OF Cons.prems] m show ?thesis by (simp add: seq_def)
  next
    case True
    with step m obtain e where e: "entry_for L m e" "LOG L level message at s =
        (Inr (), s\<lparr>clk_pos := Suc (clk_pos s), log_instance := Some (push_message e svc)\<rparr>)" by auto
    let ?s = "s\<lparr>clk_pos := Suc (clk_pos s), log_instance := Some (push_message e svc)\<rparr>"
    have "passes (push_message e svc) = passes svc" by (rule ext) (simp add: passes_def push_message_def)
    with Cons.IH [of ?s "push_message e svc"] obtain t es where "log_all L ms ?s = (Inr (), t)"
      "list_all2 (entry_for L) (filter (passes svc) ms) es"
      "log_instance t = Some (svc\<lparr>messageQueue := messageQueue svc @ e # es\<rparr>)"
      by (auto simp: push_message_def)
    with e m True show ?thesis by (intro exI [of _ t] exI [of _ "e # es"]) (simp add: seq_def)
  qed
qed

text \<open>
  the logger loses and reorders nothing on its way to the queue. After any sequence of log calls on
  a working logger, the queue has grown by one entry for each call whose level is at least the current
  one, in the order of the calls, each with its own level, message, file, line and function; the other
  calls have no effect at all.
\<close>

theorem log_calls_queued:
  assumes "log_total L" and "log_instance s = Some svc"
  shows "\<exists>t es. log_all L ms s = (Inr (), t) \<and> list_all2 (entry_for L) (filter (passes svc) ms) es \<and>
    log_instance t = Some (svc\<lparr>messageQueue := messageQueue svc @ es\<rparr>)"
  by (rule log_all_queue [OF assms])

definition demo_sys :: sys where
  "demo_sys = \<lparr>clk_seq = (\<lambda>n. n), clk_pos = 0, rng_seq = (\<lambda>n. int n mod 256), rng_pos = 0, rng_error = None,
     log_instance = Some \<lparr>currentLevel = INFO, running = True, messageQueue = [''old''], logFile = None,
       currentLogDate = []\<rparr>, log_stderr = []\<rparr>"

theorem log_calls_queued_witness:
  "\<exists>t e. log_all demo_lib [(DEBUG, ''a'', ''f'', 1, ''g''), (ERROR, ''b'', ''f'', 2, ''g'')] demo_sys = (Inr (), t) \<and>
     map_option messageQueue (log_instance t) = Some [''old'', e]"
  using log_calls_queued [OF demo_log_total, of demo_sys _ "[(DEBUG, ''a'', ''f'', 1, ''g''), (ERROR, ''b'', ''f'', 2, ''g'')]"]
  by (auto simp: demo_sys_def passes_def less_eq_log_level_def list_all2_Cons1)

section \<open>Passwords\<close>

text \<open>
  C27: a password and its stored form. What \<open>HashPasswordWithArgon2\<close> returns verifies with the same password
  from any later state, without changing it; the salt is the next 16 values of the generator, which
  moves past them, so no two calls share one; and another password verifies only if argon2 gives it the
  same hash under that salt.
\<close>

theorem password_roundtrip:
  fixes s u :: "'a sys_scheme"
  assumes "HashPasswordWithArgon2 L p s = (Inr (h, salt), t)"
  shows "VerifyUserPassword L h (toHexString salt) p u = (Inr True, u) \<and>
    salt = next_bytes s 16 \<and> t = s\<lparr>rng_pos := rng_pos s + 16\<rparr> \<and>
    (argon2_hash L q salt \<noteq> argon2_hash L p salt \<longrightarrow> fst (VerifyUserPassword L h (toHexString salt) q u) \<noteq> Inr True)"
proof -
  have "map_option toHexString (argon2_hash L q salt) \<noteq> map_option toHexString (argon2_hash L p salt)"
    if "argon2_hash L q salt \<noteq> argon2_hash L p salt"
    using that by (cases "argon2_hash L q salt"; cases "argon2_hash L p salt") (auto simp: hex.encode_inject)
  with pw.verify_other [OF assms, of q u] pw.verify_hashed [OF assms, of u] assms show ?thesis
    by (auto simp: HashPassword_Inr)
qed

theorem password_roundtrip_witness:
  "\<exists>h salt t. HashPasswordWithArgon2 demo_lib ''pw'' demo_sys = (Inr (h, salt), t) \<and>
     VerifyUserPassword demo_lib h (toHexString salt) ''pw'' t = (Inr True, t) \<and>
     fst (VerifyUserPassword demo_lib h (toHexString salt) ''px'' t) \<noteq> Inr True"
proof -
  let ?salt = "next_bytes demo_sys 16"
  obtain raw where raw: "argon2_hash demo_lib ''pw'' ?salt = Some raw" by (simp add: argon2_hash_def demo_argon2_def)
  then have h: "HashPasswordWithArgon2 demo_lib ''pw'' demo_sys =
      (Inr (toHexString raw, ?salt), demo_sys\<lparr>rng_pos := rng_pos demo_sys + 16\<rparr>)"
    by (simp add: HashPassword_Inr demo_sys_def)
  have "argon2_hash demo_lib ''px'' ?salt \<noteq> argon2_hash demo_lib ''pw'' ?salt"
    by (simp add: argon2_hash_def demo_argon2_def)
  with password_roundtrip [OF h, of "demo_sys\<lparr>rng_pos := rng_pos demo_sys + 16\<rparr>" "''px''"] h show ?thesis by blast
qed

text \<open>
  The error of hashing. On a working logger, hashing ends in a value exactly if the platform has
  entropy and argon2 reports success; otherwise the caller sees one \<open>runtime_error\<close> with a fixed
  message, whatever went wrong below it.
\<close>

theorem hash_outcome:
  assumes "log_total L" and "case rng_error s of None \<Rightarrow> True | Some e \<Rightarrow> is_std e"
  shows "fst (HashPasswordWithArgon2 L p s) =
    (case (rng_error s, argon2_hash L p (next_bytes s 16)) of
       (None, Some raw) \<Rightarrow> Inr (toHexString raw, next_bytes s 16)
     | _ \<Rightarrow> Inl (Runtime_error ''Error while trying to hash password with Argon2''))"
proof (cases "rng_error s")
  case None
  show ?thesis
  proof (cases "argon2_hash L p (next_bytes s 16)")
    case (Some raw)
    with None have "HashPasswordWithArgon2 L p s = (Inr (toHexString raw, next_bytes s 16), s\<lparr>rng_pos := rng_pos s + 16\<rparr>)"
      by (simp add: HashPassword_Inr)
    with None Some show ?thesis by simp
  next
    case n: None
    show ?thesis
      unfolding HashPasswordWithArgon2_def
      by (subst rethrow_Inl [of _ s "Runtime_error ''Hashing failed with Argon2''"])
         (use None n assms(1) in \<open>auto simp: seq_def GenerateRandomSalt_ok argon2_hash_def ARGON2_OK_def Let_def throw_def
           split: prod.splits if_splits\<close>)
  qed
next
  case (Some e)
  then have "is_std e" using assms(2) by simp
  then have "fst (GenerateRandomSalt L 16 s) = Inl (Runtime_error ''Error while trying to generate random salt'')"
    unfolding GenerateRandomSalt_def
    by (intro rethrow_Inl [of _ s e s]) (use Some assms(1) in \<open>auto simp: seq_def get_def throw_def\<close>)
  then obtain t where t: "GenerateRandomSalt L 16 s = (Inl (Runtime_error ''Error while trying to generate random salt''), t)"
    by (cases "GenerateRandomSalt L 16 s") auto
  show ?thesis
    unfolding HashPasswordWithArgon2_def
    by (subst rethrow_Inl [of _ s "Runtime_error ''Error while trying to generate random salt''" t])
       (use t Some assms(1) in \<open>auto simp: seq_def\<close>)
qed

theorem hash_outcome_witness:
  "fst (HashPasswordWithArgon2 demo_lib ''pw'' (demo_sys\<lparr>rng_error := Some (Runtime_error ''no entropy'')\<rparr>)) =
     Inl (Runtime_error ''Error while trying to hash password with Argon2'')"
  using hash_outcome [OF demo_log_total, of "demo_sys\<lparr>rng_error := Some (Runtime_error ''no entropy'')\<rparr>" "''pw''"]
  by simp

end
