(* ===== verification/Spec2Isabelle.thy ===== *)
theory Spec2Isabelle
  imports LogWorker PooledRace ApplicationStack TokenOutage OdbStatements UtilityGuarantees
begin

text \<open>
  A verification library for the ccfolio server: a Boost.Beast HTTP server with user registration and login
  over PostgreSQL (through ODB), JWT sessions, a WebSocket hub and an asynchronous logger. Definitions are
  translated from the C++ sources, paths below are relative to the root of the repository.

  \<^bold>\<open>Parts and how they interact.\<close> \<^verbatim>\<open>app/main.cc\<close> wires a \<open>Listener\<close>, a \<open>Router\<close> and the controllers together and runs
  the event loop in four threads. The listener starts an \<open>HttpSession\<close> for each connection; a session reads
  requests one at a time and passes each to \<open>handle_request\<close>, which asks the router; an upgrade hands the
  socket to a \<open>WebSocketSession\<close>, which joins the \<open>SharedState\<close> that broadcasts. The controllers call the
  \<open>UserService\<close>; it uses \<open>PasswordHelper\<close>, \<open>JWTHelper\<close> and the \<open>UserRepository\<close>, which uses the \<open>OdbRepository\<close>,
  which runs the code ODB generated for \<open>User\<close>. Every part writes to the \<open>LogService\<close>, whose worker thread
  writes the file.

  \<^bold>\<open>How the code is modelled.\<close> A function that may throw and that changes the state of the process is a
  \<open>prog\<close>: a function from a state record to a result (\<open>Inl\<close> an exception, \<open>Inr\<close> a value) and the state it leaves
  (\<open>Prelude\<close>, with rules for framing, invariants, weakest preconditions and exceptions). State records extend
  one another the way the components use each other: \<open>sys\<close> (clock, generator, logger), \<open>dbsys\<close> (table,
  transaction, faults to come), \<open>odbsys\<close> (the statement cache), \<open>app\<close> (the response under construction), \<open>session\<close> (a
  connection); \<open>hub\<close> (WebSocket sessions) and \<open>server\<close> (acceptor and loop) extend \<open>sys\<close>; \<open>process\<close> holds an \<open>app\<close> and
  the fields of every connection, and \<open>application\<close> those of the hub and the server as well. Undefined behaviour is the exception
  \<open>Undefined\<close>, which no handler catches. Libraries are parameters: the record \<open>lib\<close> of \<open>Externals\<close>, the record \<open>odb_rt\<close>
  of \<open>OdbUser\<close>, and function arguments for Beast and the operating system; what is assumed of them is a named
  predicate, and \<open>ConcreteLib\<close>, \<open>demo_rt\<close> and the other \<open>demo\<close> constants show that the assumptions hold together.

  \<^bold>\<open>Theories and sources.\<close>
  \<^item> \<open>Prelude\<close>: exceptions, programs, their rules. \<open>Externals\<close>, \<open>ConcreteLib\<close>: the libraries and an instance.
  \<^item> \<open>Utility\<close>: the hexadecimal codec of \<^verbatim>\<open>src/Utility/Utility.h\<close>; round trips both ways, what is accepted, errors.
  \<^item> \<open>LogService\<close>, \<open>LogWorker\<close>: \<^verbatim>\<open>src/Utility/LogService.{h,cc}\<close> and \<^verbatim>\<open>AppConfiguration.h\<close>; the calls, and the worker thread,
    callers and destructor as an interleaving step relation (order, no message stranded, draining, and the
    wake-up the destructor can lose).
  \<^item> \<open>PasswordHelper\<close>, \<open>JWTHelper\<close>: \<^verbatim>\<open>src/Security/*.cc\<close> and \<^verbatim>\<open>app/Middleware/AuthenticationMiddleware.h\<close>. \<open>UtilityGuarantees\<close>:
    sequences of log calls, hash and verify across states.
  \<^item> \<open>Http\<close>: \<^verbatim>\<open>src/Network/Router.h\<close> and \<open>handle_request\<close> of \<^verbatim>\<open>src/Network/HttpSession.cc\<close>, with requests and responses as
    far as the application looks at them.
  \<^item> \<open>Results\<close>: \<^verbatim>\<open>app/Entities/OperationResult.h\<close>, \<^verbatim>\<open>User.h\<close> and \<^verbatim>\<open>app/Dtos\<close>.
  \<^item> \<open>Database\<close>: the table, transactions, the statements and the object operations they make up, with a fault
    possible at every exchange with the server. \<open>OdbUser\<close>: \<^verbatim>\<open>app/Entities/odb/User-odb.{hxx,ixx,cxx}\<close> as written,
    with images, buffers, bound arrays and version counters; \<open>OdbUserCorrect\<close> shows that bindings are never
    stale and a fetch is complete, \<open>OdbUserRefines\<close> that every generated operation implements the one of
    \<open>Database\<close>, alone and in sequences, and \<open>RepositoryStack\<close> that the generic and the user repository
    on the generated code are the repositories on the table. \<open>OdbStatements\<close>: names, parameter types and columns of
    the prepared statements, and that they, the texts and the bound arrays agree.
  \<^item> \<open>OdbRepository\<close>, \<open>UserRepository\<close>, \<open>UserRace\<close>: \<^verbatim>\<open>app/Repositories\<close> and \<^verbatim>\<open>app/Interfaces\<close>; the five operations, lookup and
    registration, and any number of registrations interleaved between threads, under every schedule.
    \<open>PooledRace\<close>: the same on the generated code over a pool of connections.
  \<^item> \<open>UserService\<close>, \<open>Controllers\<close>: \<^verbatim>\<open>app/Services/UserService.h\<close>, \<^verbatim>\<open>app/Controllers\<close> and the router of \<^verbatim>\<open>app/main.cc\<close>.
    \<open>Endpoints\<close>: whole requests, from \<open>handle_request\<close> to the table and back. \<open>UserTable\<close>: sequences of requests.
    \<open>TokenOutage\<close>: a registration whose token cannot be made.
  \<^item> \<open>HttpSession\<close>: \<^verbatim>\<open>src/Network/HttpSession.{h,cc}\<close>, one connection as completion handlers. \<open>Process\<close>: all
    connections, started by the listener and interleaved.
  \<^item> \<open>ServerStack\<close>: the router of \<^verbatim>\<open>main\<close> and a connection on the generated database code. The services, handlers and
    connections do not look at the statement cache (\<open>blind\<close>), so the simulation of the repositories passes through them
    (\<open>twin\<close>), and what \<open>Endpoints\<close>, \<open>UserTable\<close> and \<open>HttpSession\<close> show on the table holds on the generated code.
  \<^item> \<open>WebSocket\<close>: \<^verbatim>\<open>src/Network/WebSocketSession.{h,cc}\<close> and \<^verbatim>\<open>SharedState.{h,cc}\<close>, sessions with addresses and lifetimes,
    interleaved with broadcasts.
  \<^item> \<open>Server\<close>: \<^verbatim>\<open>src/Network/listener.cc\<close> and the start of \<^verbatim>\<open>app/main.cc\<close>.
  \<^item> \<open>Application\<close>: the whole process. The states of \<open>Process\<close>, \<open>WebSocket\<close> and \<open>Server\<close> side by side over one \<open>sys\<close>; a step is an
    event of one of them, run on its part (\<open>focus\<close>), and the two calls between the parts, the start of a session by the listener and
    the hand-over of a socket at an upgrade, are carried out where the handlers record them (\<open>following\<close>); the invariant
    of the process, and \<open>main\<close> after the loop. \<open>ApplicationStack\<close>: the process on the generated database code
    (\<open>app_twin\<close>), and the properties of the process.

  \<^bold>\<open>Interfaces.\<close> What one part relies on in another is a locale, interpreted on the model of the code in the
  theory of the part that provides it: \<open>hex_codec\<close>, \<open>password_hasher\<close>, \<open>route_table\<close>, \<open>repository\<close>, \<open>user_repository\<close>
  and \<open>user_service\<close>, which extends it; \<open>state_part\<close> is what makes a part of a state one. The generated object operations and the table operations are tied by
  the relation \<open>implements\<close> instead, one lemma for each operation; \<open>simulates\<close> and \<open>twin\<close> lift it to programs with
  transactions and to everything above them, one rule for each construct.

  \<^bold>\<open>Bounds and termination.\<close> Every function is total and no fuel is used: loops are structural or have a measure
  (\<open>from_hex_loop\<close>, \<open>spawn_loop\<close>). Threads and completion handlers are steps taken in any order; termination of the
  log worker and of the emptying of a WebSocket queue is proved as a computed number of steps. Hash
  parameters, bytes, the value of \<open>stoi\<close> and the port have their machine width; identifiers have the bound
  of their \<open>SERIAL\<close> column; version counters and sizes are natural numbers.

  \<^bold>\<open>Not modelled.\<close> The libraries themselves (Boost.Asio and Beast, nlohmann::json, jwt-cpp, argon2, ODB's runtime and
  libpq) and the protocol parsing they do. The result object through which ODB iterates over a query: a
  query returns its rows at once. The memory order of the one unlocked read in the log worker. The handling of
  several connections at once is modelled where they share state the code protects or fails to protect (the
  logger, the users of the table, the set of WebSocket sessions); otherwise a completion handler is one step, with the
  request it serves. The pool of
  connections to the database, with a statement cache each, is modelled for registrations (\<open>PooledRace\<close>); elsewhere there is one
  connection. In the end of \<open>main\<close> only the sessions, the
  outstanding operations and the threads are followed, not the memory of the other variables. The
  headers that only declare or include, the tests, and the build files have no behaviour to model.
\<close>

end
